theory Spec2Isabelle
  imports Main
begin

section \<open>JavaScript strings\<close>

text \<open>
  A JavaScript string is modelled as the list of the code points that the string
  iterator (\<^verbatim>\<open>[...str]\<close>) yields: a number below \<open>0x110000\<close> each, a lone surrogate
  included. Every character that the code compares against (comma, semicolon, colon,
  backslash, newline, percent sign, dot, digits, letters) lies in the Basic
  Multilingual Plane, so the regular expressions of the source, which work on UTF-16
  code units, match the same substrings on this representation.
\<close>

type_synonym jschar = nat
type_synonym jsstring = "nat list"

definition lit :: "string \<Rightarrow> jsstring" where
  "lit s = map of_char s"

abbreviation NL :: jschar where "NL \<equiv> 10"
abbreviation SPACE :: jschar where "SPACE \<equiv> 32"
abbreviation PERCENT :: jschar where "PERCENT \<equiv> 37"
abbreviation COMMA :: jschar where "COMMA \<equiv> 44"
abbreviation DOT :: jschar where "DOT \<equiv> 46"
abbreviation COLON :: jschar where "COLON \<equiv> 58"
abbreviation SEMI :: jschar where "SEMI \<equiv> 59"
abbreviation EQUALS :: jschar where "EQUALS \<equiv> 61"
abbreviation BACKSLASH :: jschar where "BACKSLASH \<equiv> 92"

text \<open>The line terminators, which \<^verbatim>\<open>.\<close> of a regular expression does not match.\<close>

definition is_line_terminator :: "jschar \<Rightarrow> bool" where
  "is_line_terminator c \<longleftrightarrow> c = 10 \<or> c = 13 \<or> c = 8232 \<or> c = 8233"

text \<open>White space as \<^verbatim>\<open>\s\<close> and \<^verbatim>\<open>String.prototype.trim\<close> read it.\<close>

definition is_space :: "jschar \<Rightarrow> bool" where
  "is_space c \<longleftrightarrow>
     (9 \<le> c \<and> c \<le> 13) \<or> c = 32 \<or> c = 160 \<or> c = 5760 \<or> (8192 \<le> c \<and> c \<le> 8202) \<or>
     c = 8232 \<or> c = 8233 \<or> c = 8239 \<or> c = 8287 \<or> c = 12288 \<or> c = 65279"

definition is_digit :: "jschar \<Rightarrow> bool" where
  "is_digit c \<longleftrightarrow> 48 \<le> c \<and> c \<le> 57"

definition trim :: "jsstring \<Rightarrow> jsstring" where
  "trim s = rev (dropWhile is_space (rev (dropWhile is_space s)))"

text \<open>
  \<^verbatim>\<open>toLowerCase\<close> and \<^verbatim>\<open>toUpperCase\<close> on the ASCII letters. The Unicode case
  tables are not reproduced: a code point outside ASCII is left as it is.
\<close>

definition toLowerCase :: "jsstring \<Rightarrow> jsstring" where
  "toLowerCase s = map (\<lambda>c. if 65 \<le> c \<and> c \<le> 90 then c + 32 else c) s"

definition toUpperCase :: "jsstring \<Rightarrow> jsstring" where
  "toUpperCase s = map (\<lambda>c. if 97 \<le> c \<and> c \<le> 122 then c - 32 else c) s"

text \<open>\<^verbatim>\<open>parts.join(sep)\<close>\<close>

fun join :: "jsstring \<Rightarrow> jsstring list \<Rightarrow> jsstring" where
  "join sep [] = []"
| "join sep [x] = x"
| "join sep (x # y # ys) = x @ sep @ join sep (y # ys)"

text \<open>\<^verbatim>\<open>str.split(c)\<close> for a one-character separator: empty pieces are kept.\<close>

fun split_on :: "jschar \<Rightarrow> jsstring \<Rightarrow> jsstring list" where
  "split_on d [] = [[]]"
| "split_on d (c # cs) =
     (if c = d then [] # split_on d cs
      else (case split_on d cs of [] \<Rightarrow> [[c]] | x # xs \<Rightarrow> (c # x) # xs))"

text \<open>\<^verbatim>\<open>str.replace(/ab/g, r)\<close> for a two-character literal pattern, left to right.\<close>

fun replace2 :: "jschar \<Rightarrow> jschar \<Rightarrow> jsstring \<Rightarrow> jsstring \<Rightarrow> jsstring" where
  "replace2 a b r (x # y # zs) =
     (if x = a \<and> y = b then r @ replace2 a b r zs else x # replace2 a b r (y # zs))"
| "replace2 a b r xs = xs"

text \<open>\<^verbatim>\<open>str.replace(/c/g, r)\<close> for a one-character pattern.\<close>

definition replace1 :: "jschar \<Rightarrow> jsstring \<Rightarrow> jsstring \<Rightarrow> jsstring" where
  "replace1 a r s = concat (map (\<lambda>c. if c = a then r else [c]) s)"

text \<open>The UTF-8 size of a string, \<^verbatim>\<open>new Blob([s]).size\<close>: a lone surrogate is
  written as U+FFFD, three bytes, like every other code point from \<open>0x800\<close> to \<open>0xFFFF\<close>.\<close>

definition utf8_len :: "jschar \<Rightarrow> nat" where
  "utf8_len c = (if c < 128 then 1 else if c < 2048 then 2 else if c < 65536 then 3 else 4)"

definition blob_size :: "jsstring \<Rightarrow> nat" where
  "blob_size s = sum_list (map utf8_len s)"

section \<open>Escaping and folding: \<^verbatim>\<open>VCard.formatTextValue\<close>\<close>

text \<open>Lines 63 to 67: the five reserved characters become two-character sequences.\<close>

definition escape_char :: "jschar \<Rightarrow> jsstring" where
  "escape_char c =
     (if c = COMMA then [BACKSLASH, COMMA]
      else if c = SEMI then [BACKSLASH, SEMI]
      else if c = COLON then [BACKSLASH, COLON]
      else if c = BACKSLASH then [BACKSLASH, BACKSLASH]
      else if c = NL then [BACKSLASH, 110]
      else [c])"

text \<open>Lines 69 to 89: at a percent sign, the next five characters are compared with
  the four tokens; a token yields its literal and the index skips four more characters.
  The result is the unit to emit and the characters left.\<close>

definition next_unit :: "jschar \<Rightarrow> jsstring \<Rightarrow> jsstring \<times> jsstring" where
  "next_unit c cs =
     (if c = PERCENT then
        (let token = take 5 (c # cs) in
         if token = lit ''%COM%'' then ([COMMA], drop 4 cs)
         else if token = lit ''%SEM%'' then ([SEMI], drop 4 cs)
         else if token = lit ''%COL%'' then ([COLON], drop 4 cs)
         else if token = lit ''%BAC%'' then ([BACKSLASH], drop 4 cs)
         else ([c], cs))
      else (escape_char c, cs))"

lemma next_unit_length [termination_simp]: "length (snd (next_unit c cs)) \<le> length cs"
  by (simp add: next_unit_def Let_def)

text \<open>The loop of lines 61 to 100, on the characters left, the lines pushed so far, the
  current line and its byte count.\<close>

function (sequential) fold_loop ::
  "jsstring \<Rightarrow> jsstring list \<Rightarrow> jsstring \<Rightarrow> nat \<Rightarrow> jsstring list" where
  "fold_loop [] lines curr_line curr_line_bytes = lines @ [curr_line]"
| "fold_loop (c # cs) lines curr_line curr_line_bytes =
     (let u = fst (next_unit c cs); rest = snd (next_unit c cs); char_bytes = blob_size u in
      if curr_line_bytes + char_bytes > 75
      then fold_loop rest (lines @ [curr_line]) (SPACE # u) (1 + char_bytes)
      else fold_loop rest lines (curr_line @ u) (curr_line_bytes + char_bytes))"
  by pat_completeness auto
termination
  by (relation "measure (\<lambda>(s, _, _, _). length s)")
     (auto simp: le_imp_less_Suc next_unit_length)

definition formatTextValue :: "jsstring \<Rightarrow> jsstring" where
  "formatTextValue str = join [NL] (fold_loop str [] [] 0)"

section \<open>The tokenizer's helpers\<close>

text \<open>\<^verbatim>\<open>unesc\<close> of \<^verbatim>\<open>tokenizeVcardString\<close>: five replacements, one after the other.\<close>

definition unesc :: "jsstring \<Rightarrow> jsstring" where
  "unesc str =
     replace2 BACKSLASH 110 [NL]
       (replace2 BACKSLASH BACKSLASH [BACKSLASH]
         (replace2 BACKSLASH COLON [COLON]
           (replace2 BACKSLASH SEMI [SEMI]
             (replace2 BACKSLASH COMMA [COMMA] str))))"

text \<open>\<^verbatim>\<open>str.replace(/\n /g, '')\<close>: the continuation markers are removed.\<close>

definition unfold_lines :: "jsstring \<Rightarrow> jsstring" where
  "unfold_lines str = replace2 NL SPACE [] str"


text \<open>\<^verbatim>\<open>str.split(/c+/)\<close> for a class \<open>sep\<close> of separator characters: the text is cut
  at every maximal run of separators; the flag says that the run has begun.\<close>

fun split_runs :: "(jschar \<Rightarrow> bool) \<Rightarrow> bool \<Rightarrow> jsstring \<Rightarrow> jsstring \<Rightarrow> jsstring list" where
  "split_runs sep in_run cur [] = [cur]"
| "split_runs sep in_run cur (c # cs) =
     (if sep c then (if in_run then split_runs sep True cur cs
                     else cur # split_runs sep True [] cs)
      else split_runs sep False (cur @ [c]) cs)"

text \<open>\<^verbatim>\<open>str.match(/(\\.|[^d])+/g)\<close>: the maximal pieces between unescaped delimiters
  \<open>d\<close>. A backslash and the character after it are taken together, unless that character
  is a line terminator; empty pieces do not match. \<open>cur\<close> is the piece being read.\<close>

fun segments :: "jschar \<Rightarrow> jsstring \<Rightarrow> jsstring \<Rightarrow> jsstring list" where
  "segments d cur [] = (if cur = [] then [] else [cur])"
| "segments d cur [c] =
     (if c = d then (if cur = [] then [] else [cur]) else [cur @ [c]])"
| "segments d cur (c # c' # cs) =
     (if c = BACKSLASH \<and> \<not> is_line_terminator c' then segments d (cur @ [c, c']) cs
      else if c = d then (if cur = [] then [] else [cur]) @ segments d [] (c' # cs)
      else segments d (cur @ [c]) (c' # cs))"

text \<open>\<^verbatim>\<open>match\<close> returns \<^verbatim>\<open>null\<close> when nothing matches.\<close>

definition match_all :: "jschar \<Rightarrow> jsstring \<Rightarrow> jsstring list option" where
  "match_all d s = (case segments d [] s of [] \<Rightarrow> None | x # xs \<Rightarrow> Some (x # xs))"

section \<open>Tokens and the tokenizer\<close>

datatype error = Error string | TypeError | RangeError

record token =
  key :: jsstring
  props :: "(jsstring \<times> jsstring list) list"
  "values" :: "jsstring list"

text \<open>One parameter \<^verbatim>\<open>PROPERTY=v1,v2\<close> (lines 23 to 29 of the parser). Destructuring
  \<^verbatim>\<open>null\<close> and calling \<^verbatim>\<open>match\<close> on \<^verbatim>\<open>undefined\<close> or \<^verbatim>\<open>map\<close> on \<^verbatim>\<open>null\<close> raise a
  TypeError.\<close>

definition parse_prop :: "jsstring \<Rightarrow> error + (jsstring \<times> jsstring list)" where
  "parse_prop prop =
     (case match_all EQUALS prop of
        None \<Rightarrow> Inl TypeError
      | Some [] \<Rightarrow> Inl TypeError
      | Some [property] \<Rightarrow> Inl TypeError
      | Some (property # vals # _) \<Rightarrow>
          (case match_all COMMA vals of
             None \<Rightarrow> Inl TypeError
           | Some vs \<Rightarrow> Inr (unesc property, map unesc vs)))"

fun parse_props :: "jsstring list \<Rightarrow> error + (jsstring \<times> jsstring list) list" where
  "parse_props [] = Inr []"
| "parse_props (p # ps) =
     (case parse_prop p of
        Inl e \<Rightarrow> Inl e
      | Inr q \<Rightarrow> (case parse_props ps of Inl e \<Rightarrow> Inl e | Inr qs \<Rightarrow> Inr (q # qs)))"

text \<open>One logical line (lines 16 to 32 of the parser). \<open>or_empty\<close> tells the two copies
  of the tokenizer apart: \<^verbatim>\<open>VCardParser.tokenizeVcardString\<close> reads a value part without
  a match as the empty list (\<^verbatim>\<open>||[]\<close>), \<^verbatim>\<open>VCard.tokenizeVcardString\<close> raises there.\<close>

definition tokenize_line :: "bool \<Rightarrow> jsstring \<Rightarrow> error + token" where
  "tokenize_line or_empty line =
     (case match_all COLON line of
        None \<Rightarrow> Inl TypeError
      | Some [] \<Rightarrow> Inl TypeError
      | Some (key_props # vals) \<Rightarrow>
          (case (case match_all SEMI (join [COLON] vals) of
                   None \<Rightarrow> (if or_empty then Inr [] else Inl TypeError)
                 | Some vs \<Rightarrow> Inr (map unesc vs)) of
             Inl e \<Rightarrow> Inl e
           | Inr vs \<Rightarrow>
               (case match_all SEMI key_props of
                  None \<Rightarrow> Inl TypeError
                | Some [] \<Rightarrow> Inl TypeError
                | Some (k # ps) \<Rightarrow>
                    (case parse_props ps of
                       Inl e \<Rightarrow> Inl e
                     | Inr qs \<Rightarrow> Inr \<lparr>key = unesc k, props = qs, values = vs\<rparr>))))"

fun tokenize_lines :: "bool \<Rightarrow> jsstring list \<Rightarrow> error + token list" where
  "tokenize_lines or_empty [] = Inr []"
| "tokenize_lines or_empty (l # ls) =
     (case tokenize_line or_empty l of
        Inl e \<Rightarrow> Inl e
      | Inr t \<Rightarrow>
          (case tokenize_lines or_empty ls of Inl e \<Rightarrow> Inl e | Inr ts \<Rightarrow> Inr (t # ts)))"

subsection \<open>Combining groups (lines 34 to 52)\<close>

text \<open>
  \<^verbatim>\<open>label_map\<close> is a plain object used as a dictionary from group labels to token
  indices; the map holds its own properties. Two labels behave differently from the
  others on a plain object: once \<^verbatim>\<open>hasOwnProperty\<close> is an own property (a number), the
  call \<^verbatim>\<open>label_map.hasOwnProperty(label)\<close> raises a TypeError; and an assignment to
  \<^verbatim>\<open>__proto__\<close> of a number goes to the setter of \<^verbatim>\<open>Object.prototype\<close>, which ignores
  it, so that this label never becomes an own property.
\<close>

type_synonym label_map = "jsstring \<rightharpoonup> nat"

definition hasOwnProperty :: "label_map \<Rightarrow> jsstring \<Rightarrow> error + bool" where
  "hasOwnProperty m l =
     (if m (lit ''hasOwnProperty'') \<noteq> None then Inl TypeError else Inr (m l \<noteq> None))"

definition set_label :: "label_map \<Rightarrow> jsstring \<Rightarrow> nat \<Rightarrow> label_map" where
  "set_label m l i = (if l = lit ''__proto__'' then m else m(l \<mapsto> i))"

text \<open>The body of the loop for index \<open>i\<close>. \<^verbatim>\<open>[label, key] = tokens[i].key.split(".")\<close>
  takes the first two pieces of the key.\<close>

definition group_step ::
  "nat \<Rightarrow> token list \<times> label_map \<Rightarrow> error + (token list \<times> label_map)" where
  "group_step i st =
     (let tokens = fst st; label_map = snd st; t = tokens ! i in
      if DOT \<in> set (key t) then
        (let label = split_on DOT (key t) ! 0; k = split_on DOT (key t) ! 1 in
         case hasOwnProperty label_map label of
           Inl e \<Rightarrow> Inl e
         | Inr False \<Rightarrow> Inr (tokens[i := t\<lparr>key := k\<rparr>], set_label label_map label i)
         | Inr True \<Rightarrow>
             (case label_map label of
                None \<Rightarrow> Inl TypeError
              | Some j \<Rightarrow>
                  Inr (tokens[j := (tokens ! j)
                         \<lparr>props := props (tokens ! j) @
                            [(if k = lit ''X-ABLabel'' then lit ''LABEL'' else k, values t)]\<rparr>],
                       label_map)))
      else Inr st)"

fun group_loop ::
  "nat list \<Rightarrow> token list \<times> label_map \<Rightarrow> error + (token list \<times> label_map)" where
  "group_loop [] st = Inr st"
| "group_loop (i # is) st =
     (case group_step i st of Inl e \<Rightarrow> Inl e | Inr st' \<Rightarrow> group_loop is st')"

definition combine_groups :: "token list \<Rightarrow> error + token list" where
  "combine_groups tokens =
     (case group_loop [0 ..< length tokens] (tokens, Map.empty) of
        Inl e \<Rightarrow> Inl e
      | Inr st \<Rightarrow> Inr (filter (\<lambda>t. DOT \<notin> set (key t)) (fst st)))"

definition tokenize :: "bool \<Rightarrow> jsstring \<Rightarrow> error + token list" where
  "tokenize or_empty str =
     (case tokenize_lines or_empty (split_runs (\<lambda>c. c = NL) False [] (unfold_lines str)) of
        Inl e \<Rightarrow> Inl e
      | Inr tokens \<Rightarrow> combine_groups tokens)"

text \<open>\<^verbatim>\<open>VCardParser.tokenizeVcardString\<close> (src/parser.js) and \<^verbatim>\<open>VCard.tokenizeVcardString\<close>.\<close>

definition VCardParser_tokenizeVcardString :: "jsstring \<Rightarrow> error + token list" where
  "VCardParser_tokenizeVcardString str = tokenize True str"

definition VCard_tokenizeVcardString :: "jsstring \<Rightarrow> error + token list" where
  "VCard_tokenizeVcardString str = tokenize False str"


section \<open>Dates\<close>

text \<open>
  A \<^verbatim>\<open>Date\<close> object holds a time value, the milliseconds since the epoch, or \<^verbatim>\<open>NaN\<close>
  (an invalid date). \<^verbatim>\<open>toISOString\<close> and \<^verbatim>\<open>Date.UTC\<close> convert between the time value
  and the fields of the proleptic Gregorian calendar in UTC.
\<close>

datatype jsdate = InvalidDate | DateTV int



definition civil_from_days :: "int \<Rightarrow> int \<times> int \<times> int" where
  "civil_from_days z0 =
     (let z = z0 + 719468;
          era = z div 146097;
          doe = z - era * 146097;
          yoe = (doe - doe div 1460 + doe div 36524 - doe div 146096) div 365;
          doy = doe - (365 * yoe + yoe div 4 - yoe div 100);
          mp = (5 * doy + 2) div 153;
          d = doy - (153 * mp + 2) div 5 + 1;
          m = (if mp < 10 then mp + 3 else mp - 9);
          y = yoe + era * 400 + (if m \<le> 2 then 1 else 0)
      in (y, m, d))"


fun decimal :: "nat \<Rightarrow> jsstring" where
  "decimal n = (if n < 10 then [48 + n] else decimal (n div 10) @ [48 + n mod 10])"

declare decimal.simps [simp del]

definition pad :: "nat \<Rightarrow> nat \<Rightarrow> jsstring" where
  "pad w n = replicate (w - length (decimal n)) 48 @ decimal n"

text \<open>\<^verbatim>\<open>toISOString\<close>: \<^verbatim>\<open>YYYY-MM-DDTHH:mm:ss.sssZ\<close>, the year with a sign and six digits
  when it is not within 0 to 9999.\<close>

definition toISOString :: "int \<Rightarrow> jsstring" where
  "toISOString tv =
     (let days = tv div 86400000;
          ms = nat (tv mod 86400000);
          y = fst (civil_from_days days);
          m = fst (snd (civil_from_days days));
          d = snd (snd (civil_from_days days));
          year = (if 0 \<le> y \<and> y \<le> 9999 then pad 4 (nat y)
                  else (if y < 0 then lit ''-'' else lit ''+'') @ pad 6 (nat \<bar>y\<bar>))
      in year @ lit ''-'' @ pad 2 (nat m) @ lit ''-'' @ pad 2 (nat d) @ lit ''T'' @
         pad 2 (ms div 3600000) @ lit '':'' @ pad 2 (ms div 60000 mod 60) @ lit '':'' @
         pad 2 (ms div 1000 mod 60) @ lit ''.'' @ pad 3 (ms mod 1000) @ lit ''Z'')"


text \<open>An element of an array inside a template literal: \<^verbatim>\<open>undefined\<close> prints as such.\<close>

definition elem :: "jsstring list \<Rightarrow> nat \<Rightarrow> jsstring" where
  "elem xs i = (if i < length xs then xs ! i else lit ''undefined'')"

section \<open>The contact: class \<^verbatim>\<open>VCard\<close>\<close>

record address_entry =
  adr_street :: jsstring
  adr_city :: jsstring
  adr_state :: jsstring
  adr_zip :: jsstring
  adr_country :: jsstring
  adr_label :: jsstring

record tel_entry =
  tel_phone :: jsstring
  tel_ext :: jsstring
  tel_type :: "jsstring list"
  tel_pref :: bool

record email_entry =
  email_address :: jsstring
  email_pref :: bool

text \<open>\<^verbatim>\<open>imurl\<close> is \<^verbatim>\<open>undefined\<close> (\<open>None\<close>) when the parser finds no colon in an IMPP value.\<close>

record impp_entry =
  impp_imurl :: "jsstring option"
  impp_protocol :: jsstring
  impp_pref :: bool

text \<open>The fields of the constructor, in its order; \<open>None\<close> is \<^verbatim>\<open>null\<close>. The field
  \<^verbatim>\<open>note\<close> is written \<open>note_entries\<close>.\<close>

record contact =
  specVersion :: nat
  kind :: "jsstring option"
  name :: "jsstring list"
  nickname :: "jsstring list"
  photo :: "jsstring list"
  bday :: "jsdate option"
  anniversary :: "jsdate option"
  gender :: "jsstring option"
  gender_ident :: "jsstring option"
  address :: "address_entry list"
  tel :: "tel_entry list"
  email :: "email_entry list"
  impp :: "impp_entry list"
  title :: "jsstring list"
  role :: "jsstring list"
  logo :: "jsstring list"
  org :: "jsstring list list"
  note_entries :: "jsstring list"
  url :: "jsstring list"

definition new_VCard :: contact where
  "new_VCard =
     \<lparr>specVersion = 4, kind = None, name = [], nickname = [], photo = [], bday = None,
      anniversary = None, gender = None, gender_ident = None, address = [], tel = [],
      email = [], impp = [], title = [], role = [], logo = [], org = [],
      note_entries = [], url = []\<rparr>"

subsection \<open>The two regular expressions of the constructor\<close>

text \<open>
  \<^verbatim>\<open>dataUriRegex = /^data:image\/([^;]*);base64,(.*)$/\<close>. The first group cannot hold a
  semicolon and is followed by one, so it ends at the first semicolon; the second group
  is the rest, which must hold no line terminator. The result is the two groups.
\<close>

definition dataUri_match :: "jsstring \<Rightarrow> (jsstring \<times> jsstring) option" where
  "dataUri_match s =
     (let p = lit ''data:image/''; q = lit '';base64,'';
          r = drop (length p) s;
          ty = takeWhile (\<lambda>c. c \<noteq> SEMI) r;
          r2 = dropWhile (\<lambda>c. c \<noteq> SEMI) r;
          data = drop (length q) r2
      in if take (length p) s = p \<and> take (length q) r2 = q \<and>
            list_all (\<lambda>c. \<not> is_line_terminator c) data
         then Some (ty, data) else None)"

text \<open>
  \<^verbatim>\<open>emailRegex\<close>, anchored at both ends: a local part, \<^verbatim>\<open>@\<close>, a domain. No domain holds
  an \<^verbatim>\<open>@\<close>, so the separator is the last \<^verbatim>\<open>@\<close> of the string. The local part is either
  dot-separated non-empty runs of characters outside \<^verbatim>\<open><>()[]\.,;:\s@"\<close>, or one character
  followed by a quoted non-empty text; the domain is either four dot-separated groups of
  one to three digits in brackets, or dot-separated non-empty labels of letters, digits
  and hyphens followed by a last label of at least two letters.
\<close>

definition email_atom_char :: "jschar \<Rightarrow> bool" where
  "email_atom_char c \<longleftrightarrow>
     c \<notin> set [60, 62, 40, 41, 91, 93, 92, 46, 44, 59, 58, 64, 34] \<and> \<not> is_space c"

definition is_alpha :: "jschar \<Rightarrow> bool" where
  "is_alpha c \<longleftrightarrow> (65 \<le> c \<and> c \<le> 90) \<or> (97 \<le> c \<and> c \<le> 122)"

definition email_local :: "jsstring \<Rightarrow> bool" where
  "email_local l \<longleftrightarrow>
     list_all (\<lambda>p. p \<noteq> [] \<and> list_all email_atom_char p) (split_on DOT l) \<or>
     (4 \<le> length l \<and> l ! 1 = 34 \<and> last l = 34 \<and>
      list_all (\<lambda>c. \<not> is_line_terminator c) (butlast l))"

definition email_domain :: "jsstring \<Rightarrow> bool" where
  "email_domain d \<longleftrightarrow>
     (2 \<le> length d \<and> hd d = 91 \<and> last d = 93 \<and>
      length (split_on DOT (butlast (tl d))) = 4 \<and>
      list_all (\<lambda>g. 1 \<le> length g \<and> length g \<le> 3 \<and> list_all is_digit g)
        (split_on DOT (butlast (tl d)))) \<or>
     (2 \<le> length (split_on DOT d) \<and>
      list_all (\<lambda>p. p \<noteq> [] \<and> list_all (\<lambda>c. is_alpha c \<or> is_digit c \<or> c = 45) p)
        (butlast (split_on DOT d)) \<and>
      2 \<le> length (last (split_on DOT d)) \<and> list_all is_alpha (last (split_on DOT d)))"

definition emailRegex_test :: "jsstring \<Rightarrow> bool" where
  "emailRegex_test s \<longleftrightarrow>
     64 \<in> set s \<and>
     email_local (rev (tl (dropWhile (\<lambda>c. c \<noteq> 64) (rev s)))) \<and>
     email_domain (rev (takeWhile (\<lambda>c. c \<noteq> 64) (rev s)))"


subsection \<open>The setters\<close>

text \<open>
  A setter works on the object in place and returns it, or throws. Its model takes the
  contact and returns the error thrown, if any, with the contact as the call leaves it.
\<close>

type_synonym setter = "contact \<Rightarrow> error option \<times> contact"

definition KINDS :: "jsstring list" where
  "KINDS = [lit ''individual'', lit ''group'', lit ''org'', lit ''location'']"

definition GENDERS :: "jsstring list" where
  "GENDERS = [lit ''M'', lit ''F'', lit ''O'', lit ''N'', lit ''U'']"

definition TEL_TYPES :: "jsstring list" where
  "TEL_TYPES = [lit ''text'', lit ''voice'', lit ''fax'', lit ''cell'', lit ''video'',
                lit ''pager'', lit ''textphone'']"




text \<open>\<^verbatim>\<open>name.replace(/\s+/g, ' ')\<close>: every maximal run of white space becomes one space;
  the flag says that the run has begun.\<close>

fun collapse_spaces :: "bool \<Rightarrow> jsstring \<Rightarrow> jsstring" where
  "collapse_spaces in_run [] = []"
| "collapse_spaces in_run (c # cs) =
     (if is_space c then (if in_run then collapse_spaces True cs
                          else SPACE # collapse_spaces True cs)
      else c # collapse_spaces False cs)"

definition setName :: "jsstring \<Rightarrow> setter" where
  "setName n c = (None, c\<lparr>name := name c @ [trim (collapse_spaces False n)]\<rparr>)"

definition setKind :: "jsstring \<Rightarrow> setter" where
  "setKind k c =
     (let k' = toLowerCase (trim k) in
      if k' \<notin> set KINDS then (Some (Error ''Invalid Kind value.''), c)
      else (None, c\<lparr>kind := Some k'\<rparr>))"

definition setPhoto :: "jsstring \<Rightarrow> setter" where
  "setPhoto dataURI c =
     (if dataUri_match dataURI = None then (Some (Error ''Invalid Image Data URI''), c)
      else (None, c\<lparr>photo := photo c @ [dataURI]\<rparr>))"



text \<open>\<^verbatim>\<open>if (ident) ident = ident.trim().toLowerCase()\<close>: \<^verbatim>\<open>null\<close> and the empty string
  are left as they are.\<close>

definition setGender :: "jsstring \<Rightarrow> jsstring option \<Rightarrow> setter" where
  "setGender g ident c =
     (let ident' = (case ident of
                      None \<Rightarrow> None
                    | Some i \<Rightarrow> if i \<noteq> [] then Some (toLowerCase (trim i)) else Some i) in
      if g \<notin> set GENDERS then (Some (Error ''Invalid Gender value.''), c)
      else (None, c\<lparr>gender := Some g, gender_ident := ident'\<rparr>))"


text \<open>The \<^verbatim>\<open>type\<close> argument of \<^verbatim>\<open>setPhone\<close> is one string or a list of strings.\<close>

datatype type_arg = TypeString jsstring | TypeList "jsstring list"

definition setPhone :: "jsstring \<Rightarrow> jsstring \<Rightarrow> type_arg \<Rightarrow> bool \<Rightarrow> setter" where
  "setPhone ph ex ty pr c =
     (let types = (case ty of TypeString t \<Rightarrow> [t] | TypeList ts \<Rightarrow> ts) in
      if \<not> list_all (\<lambda>t. t \<in> set TEL_TYPES) types then (Some (Error ''Invalid Type value.''), c)
      else
        (let cleared = (if pr then map (\<lambda>e. e\<lparr>tel_pref := False\<rparr>) (tel c) else tel c) in
         (None, c\<lparr>tel := cleared @
            [\<lparr>tel_phone = ph, tel_ext = ex, tel_type = types, tel_pref = pr\<rparr>]\<rparr>)))"

definition setEmail :: "jsstring \<Rightarrow> bool \<Rightarrow> setter" where
  "setEmail em pr c =
     (if \<not> emailRegex_test (toLowerCase em) then (Some (Error ''Invalid Email value.''), c)
      else
        (let cleared = (if pr then map (\<lambda>e. e\<lparr>email_pref := False\<rparr>) (email c) else email c) in
         (None, c\<lparr>email := cleared @ [\<lparr>email_address = em, email_pref = pr\<rparr>]\<rparr>)))"








text \<open>Calls one after the other; a throw ends the sequence.\<close>

definition and_then :: "setter \<Rightarrow> setter \<Rightarrow> setter" where
  "and_then f g c = (case f c of (None, c') \<Rightarrow> g c' | (Some e, c') \<Rightarrow> (Some e, c'))"

fun for_each :: "('a \<Rightarrow> setter) \<Rightarrow> 'a list \<Rightarrow> setter" where
  "for_each f [] c = (None, c)"
| "for_each f (x # xs) c = and_then (f x) (for_each f xs) c"


section \<open>The renderer: \<^verbatim>\<open>VCard.render\<close>\<close>

text \<open>\<^verbatim>\<open>formatDate\<close>: the ISO string is cut at every run of characters that are not
  digits and the first six pieces are put together again. \<^verbatim>\<open>toISOString\<close> raises a
  RangeError on an invalid date.\<close>

definition formatDate :: "nat \<Rightarrow> jsdate \<Rightarrow> error + jsstring" where
  "formatDate v date =
     (case date of
        InvalidDate \<Rightarrow> Inl RangeError
      | DateTV tv \<Rightarrow>
          (let p = split_runs (\<lambda>c. \<not> is_digit c) False [] (toISOString tv) in
           if v = 4
           then Inr (elem p 0 @ elem p 1 @ elem p 2 @ lit ''T'' @ elem p 3 @ elem p 4 @
                     elem p 5 @ lit ''Z'')
           else Inr (elem p 0 @ lit ''-'' @ elem p 1 @ lit ''-'' @ elem p 2 @ lit ''T'' @
                     elem p 3 @ lit '':'' @ elem p 4 @ lit '':'' @ elem p 5 @ lit ''Z'')))"

text \<open>The sections of the output, in the order of the source. A section that can throw
  is an \<open>error + jsstring list\<close>; \<open>collect\<close> puts the sections together and stops at the
  first throw.\<close>

fun collect :: "(error + jsstring list) list \<Rightarrow> error + jsstring list" where
  "collect [] = Inr []"
| "collect (Inl e # _) = Inl e"
| "collect (Inr xs # rest) =
     (case collect rest of Inl e \<Rightarrow> Inl e | Inr ys \<Rightarrow> Inr (xs @ ys))"

text \<open>Lines 343 to 346: the value of the \<^verbatim>\<open>N\<close> line, from the first name.\<close>

definition n_value :: "jsstring \<Rightarrow> jsstring" where
  "n_value n =
     (let name_parts = split_on SPACE n;
          last_name = join [SPACE] (butlast name_parts) in
      if last_name \<noteq> [] then last name_parts @ lit ''%SEM%'' @ last_name
      else last name_parts)"

fun name_lines :: "nat \<Rightarrow> jsstring list \<Rightarrow> jsstring list" where
  "name_lines i [] = []"
| "name_lines i (n # ns) =
     formatTextValue (lit ''FN%COL%'' @ n) #
     (if i = 0 then [formatTextValue (lit ''N%COL%'' @ n_value n)] else []) @
     name_lines (Suc i) ns"

definition nickname_lines :: "jsstring list \<Rightarrow> jsstring list" where
  "nickname_lines ns =
     concat (map (\<lambda>n. if trim n = [] then [] else [lit ''NICKNAME:'' @ formatTextValue n]) ns)"

text \<open>Lines 361 and 365: the reserved characters of a data URI become tokens.\<close>

definition tokens_for_reserved :: "jsstring \<Rightarrow> jsstring" where
  "tokens_for_reserved s =
     replace1 BACKSLASH (lit ''%BAC%'')
       (replace1 COMMA (lit ''%COM%'')
         (replace1 SEMI (lit ''%SEM%'')
           (replace1 COLON (lit ''%COL%'') s)))"

text \<open>\<^verbatim>\<open>PHOTO\<close> and \<^verbatim>\<open>LOGO\<close> (lines 358 to 368 and 518 to 528). Destructuring the
  \<^verbatim>\<open>null\<close> of a failed \<^verbatim>\<open>match\<close> raises a TypeError.\<close>

definition image_line :: "nat \<Rightarrow> jsstring \<Rightarrow> jsstring \<Rightarrow> error + jsstring list" where
  "image_line v tag uri =
     (if v = 4 then Inr [formatTextValue (tag @ lit ''%COL%'' @ tokens_for_reserved uri)]
      else (case dataUri_match uri of
              None \<Rightarrow> Inl TypeError
            | Some (ty, data) \<Rightarrow>
                Inr [formatTextValue (tag @ lit ''%SEM%ENCODING=b%SEM%TYPE='' @ toUpperCase ty @
                                      lit ''%COL%'' @ tokens_for_reserved data)]))"

definition image_lines :: "nat \<Rightarrow> jsstring \<Rightarrow> jsstring list \<Rightarrow> error + jsstring list" where
  "image_lines v tag uris = collect (map (image_line v tag) uris)"

definition date_line :: "nat \<Rightarrow> jsstring \<Rightarrow> jsdate option \<Rightarrow> error + jsstring list" where
  "date_line v tag d =
     (case d of
        None \<Rightarrow> Inr []
      | Some date \<Rightarrow> (case formatDate v date of Inl e \<Rightarrow> Inl e | Inr t \<Rightarrow> Inr [tag @ t]))"

definition gender_lines :: "jsstring option \<Rightarrow> jsstring option \<Rightarrow> jsstring list" where
  "gender_lines g gi =
     (case g of
        None \<Rightarrow> []
      | Some gv \<Rightarrow>
          if gv = [] then []
          else [formatTextValue (lit ''GENDER%COL%'' @ gv @
                  (case gi of None \<Rightarrow> [] | Some i \<Rightarrow> if i \<noteq> [] then lit ''%SEM%'' @ i else []))])"

text \<open>\<^verbatim>\<open>getGroup\<close>: the counter of the closure is the argument.\<close>

definition getGroup :: "nat \<Rightarrow> jsstring" where
  "getGroup n = lit ''item'' @ decimal n @ lit ''.''"

text \<open>Lines 388 to 433, one address; \<open>grp\<close> is the group prefix, empty unless the version is 3.\<close>

definition address_line :: "nat \<Rightarrow> jsstring \<Rightarrow> address_entry \<Rightarrow> jsstring list" where
  "address_line v grp a =
     formatTextValue
       (grp @ lit ''ADR'' @
        (if v = 4 \<and> adr_label a \<noteq> [] then lit ''%SEM%LABEL='' @ adr_label a else []) @
        lit ''%COL%%SEM%%SEM%'' @ adr_street a @ lit ''%SEM%'' @ adr_city a @ lit ''%SEM%'' @
        adr_state a @ lit ''%SEM%'' @ adr_zip a @ lit ''%SEM%'' @ adr_country a) #
     (if v = 3 then [formatTextValue (grp @ lit ''X-ABLabel%COL%'' @ adr_label a)] else [])"

fun address_lines :: "nat \<Rightarrow> nat \<Rightarrow> address_entry list \<Rightarrow> jsstring list" where
  "address_lines v g [] = []"
| "address_lines v g (a # as) =
     (if v = 3 then address_line v (getGroup (Suc g)) a @ address_lines v (Suc g) as
      else address_line v [] a @ address_lines v g as)"

text \<open>\<^verbatim>\<open>phone_type_map\<close>, on the seven types that \<^verbatim>\<open>setPhone\<close> admits; \<^verbatim>\<open>textphone\<close> maps
  to the empty string, which the filter drops like a type outside the table.\<close>

definition phone_type_map :: "jsstring \<Rightarrow> jsstring" where
  "phone_type_map t =
     (if t = lit ''text'' then lit ''cell''
      else if t = lit ''voice'' then lit ''voice''
      else if t = lit ''fax'' then lit ''fax''
      else if t = lit ''cell'' then lit ''cell''
      else if t = lit ''video'' then lit ''video''
      else if t = lit ''pager'' then lit ''pager''
      else [])"

definition tel_line :: "nat \<Rightarrow> tel_entry \<Rightarrow> jsstring" where
  "tel_line v t =
     (let digits = take 10 (filter is_digit (tel_phone t));
          number = lit ''+1-'' @ take 3 digits @ lit ''-'' @ take 3 (drop 3 digits) @ lit ''-'' @
                   take 4 (drop 6 digits);
          types = (if v = 3
                   then filter (\<lambda>x. x \<noteq> []) (map phone_type_map (tel_type t)) @
                        (if tel_pref t then [lit ''pref''] else [])
                   else tel_type t)
      in formatTextValue
           (lit ''TEL'' @
            (if v = 4 then lit ''%SEM%VALUE=uri'' @ (if tel_pref t then lit ''%SEM%PREF=1'' else [])
             else []) @
            (if tel_type t \<noteq> [] then lit ''%SEM%TYPE='' @ join (lit ''%COM%'') types else []) @
            (if v = 4 then lit ''%COL%tel%COL%'' @ number else lit ''%COL%'' @ number) @
            (if v = 4 \<and> tel_ext t \<noteq> [] then lit ''%SEM%ext='' @ tel_ext t else [])))"

definition email_line :: "nat \<Rightarrow> email_entry \<Rightarrow> jsstring" where
  "email_line v e =
     formatTextValue
       (lit ''EMAIL'' @
        (if v = 4 then (if email_pref e then lit ''%SEM%PREF=1'' else [])
         else lit ''%SEM%TYPE=internet'' @ (if email_pref e then lit ''%COM%pref'' else [])) @
        lit ''%COL%'' @ email_address e)"

definition impp_line :: "impp_entry \<Rightarrow> jsstring" where
  "impp_line i =
     formatTextValue
       (lit ''IMPP'' @ (if impp_pref i then lit ''%SEM%PREF=1'' else []) @
        lit ''%COL%'' @ impp_protocol i @ lit ''%COL%'' @
        (case impp_imurl i of None \<Rightarrow> lit ''undefined'' | Some u \<Rightarrow> u))"

text \<open>\<^verbatim>\<open>!this.kind\<close>: \<^verbatim>\<open>null\<close> and the empty string are falsy.\<close>

definition kind_missing :: "contact \<Rightarrow> bool" where
  "kind_missing c \<longleftrightarrow> kind c = None \<or> kind c = Some []"

definition render_sections :: "contact \<Rightarrow> (error + jsstring list) list" where
  "render_sections c =
     (let v = specVersion c in
        [Inr [lit ''BEGIN:VCARD'', lit ''VERSION:'' @ decimal v @ lit ''.0''],
         Inr (if v = 4 then [lit ''KIND:'' @ (case kind c of None \<Rightarrow> [] | Some k \<Rightarrow> k)] else []),
         Inr (name_lines 0 (name c)),
         Inr (nickname_lines (nickname c)),
         image_lines v (lit ''PHOTO'') (photo c),
         date_line v (lit ''BDAY:'') (bday c),
         (if v = 4 then date_line v (lit ''ANNIVERSARY:'') (anniversary c) else Inr []),
         Inr (if v = 4 then gender_lines (gender c) (gender_ident c) else []),
         Inr (address_lines v 0 (address c)),
         Inr (map (tel_line v) (tel c)),
         Inr (map (email_line v) (email c)),
         Inr (if v = 4 then map impp_line (impp c) else []),
         Inr (map (\<lambda>t. formatTextValue (lit ''TITLE%COL%'' @ t)) (title c)),
         Inr (map (\<lambda>r. formatTextValue (lit ''ROLE%COL%'' @ r)) (role c)),
         image_lines v (lit ''LOGO'') (logo c),
         Inr (map (\<lambda>parts. formatTextValue (lit ''ORG%COL%'' @ join (lit ''%SEM%'') parts)) (org c)),
         Inr (map (\<lambda>n. formatTextValue (lit ''NOTE%COL%'' @ n)) (note_entries c)),
         Inr (map (\<lambda>u. lit ''URL:'' @ u) (url c)),
         Inr [lit ''END:VCARD'']])"

text \<open>The two checks of lines 322 to 330 come first.\<close>

definition render_parts :: "contact \<Rightarrow> error + jsstring list" where
  "render_parts c =
     (if specVersion c = 4 \<and> kind_missing c
      then Inl (Error ''Missing Kind property (Required in Version 4)'')
      else if name c = [] then Inl (Error ''Missing Name property.'')
      else collect (render_sections c))"

definition render :: "contact \<Rightarrow> error + jsstring" where
  "render c = (case render_parts c of Inl e \<Rightarrow> Inl e | Inr parts \<Rightarrow> Inr (join [NL] parts))"


section \<open>The field mapper: class \<^verbatim>\<open>VCardParser\<close>\<close>





























section \<open>Notions used in the statements\<close>

text \<open>A text is normal with respect to white space when no two white-space characters
  are adjacent and none stands first or last.\<close>

fun no_adjacent_spaces :: "jsstring \<Rightarrow> bool" where
  "no_adjacent_spaces (a # b # cs) \<longleftrightarrow> \<not> (is_space a \<and> is_space b) \<and> no_adjacent_spaces (b # cs)"
| "no_adjacent_spaces [a] \<longleftrightarrow> True"
| "no_adjacent_spaces [] \<longleftrightarrow> True"

definition whitespace_normal :: "jsstring \<Rightarrow> bool" where
  "whitespace_normal s \<longleftrightarrow>
     no_adjacent_spaces s \<and> (s = [] \<or> (\<not> is_space (hd s) \<and> \<not> is_space (last s)))"

text \<open>The words of a text: its maximal runs of characters that are not white space;
  \<open>cur\<close> is the word being read.\<close>

fun words_of :: "jsstring \<Rightarrow> jsstring \<Rightarrow> jsstring list" where
  "words_of cur [] = (if cur = [] then [] else [cur])"
| "words_of cur (c # cs) =
     (if is_space c then (if cur = [] then [] else [cur]) @ words_of [] cs
      else words_of (cur @ [c]) cs)"

definition ends_with_space :: "jsstring \<Rightarrow> bool" where
  "ends_with_space s \<longleftrightarrow> s \<noteq> [] \<and> is_space (last s)"


text \<open>The types stored for a \<^verbatim>\<open>type\<close> argument of \<^verbatim>\<open>setPhone\<close>, and the list of phone
  entries after one successful call.\<close>

definition types_of :: "type_arg \<Rightarrow> jsstring list" where
  "types_of ty = (case ty of TypeString t \<Rightarrow> [t] | TypeList ts \<Rightarrow> ts)"

definition push_tel :: "tel_entry list \<Rightarrow> jsstring \<times> jsstring \<times> type_arg \<times> bool \<Rightarrow> tel_entry list" where
  "push_tel xs call =
     (case call of (ph, ex, ty, pr) \<Rightarrow>
        (if pr then map (\<lambda>e. e\<lparr>tel_pref := False\<rparr>) xs else xs) @
        [\<lparr>tel_phone = ph, tel_ext = ex, tel_type = types_of ty, tel_pref = pr\<rparr>])"


definition push_email :: "email_entry list \<Rightarrow> jsstring \<times> bool \<Rightarrow> email_entry list" where
  "push_email xs call =
     (case call of (em, pr) \<Rightarrow>
        (if pr then map (\<lambda>e. e\<lparr>email_pref := False\<rparr>) xs else xs) @
        [\<lparr>email_address = em, email_pref = pr\<rparr>])"

text \<open>
  The units that the loop of \<^verbatim>\<open>formatTextValue\<close> emits for a text, one for each turn of
  the loop, and the loop on the units. The escaped logical line is the units put
  together, with no fold.
\<close>

function units :: "jsstring \<Rightarrow> jsstring list" where
  "units [] = []"
| "units (c # cs) = fst (next_unit c cs) # units (snd (next_unit c cs))"
  by pat_completeness auto
termination
  by (relation "measure length") (auto simp: le_imp_less_Suc next_unit_length)

definition escape_text :: "jsstring \<Rightarrow> jsstring" where
  "escape_text s = concat (units s)"

fun fold_units :: "jsstring list \<Rightarrow> jsstring list \<Rightarrow> jsstring \<Rightarrow> nat \<Rightarrow> jsstring list" where
  "fold_units [] lines curr_line curr_line_bytes = lines @ [curr_line]"
| "fold_units (u # us) lines curr_line curr_line_bytes =
     (if curr_line_bytes + blob_size u > 75
      then fold_units us (lines @ [curr_line]) (SPACE # u) (1 + blob_size u)
      else fold_units us lines (curr_line @ u) (curr_line_bytes + blob_size u))"







text \<open>The texts that \<^verbatim>\<open>unesc\<close> gives back after escaping: a text is safe when it has no
  percent sign, so that \<^verbatim>\<open>formatTextValue\<close> reads no token in it, and no backslash
  directly followed by the letter n.\<close>

fun backslash_n_free :: "jsstring \<Rightarrow> bool" where
  "backslash_n_free (a # b # cs) \<longleftrightarrow> \<not> (a = BACKSLASH \<and> b = 110) \<and> backslash_n_free (b # cs)"
| "backslash_n_free [a] \<longleftrightarrow> True"
| "backslash_n_free [] \<longleftrightarrow> True"

definition safe_text :: "jsstring \<Rightarrow> bool" where
  "safe_text s \<longleftrightarrow> PERCENT \<notin> set s \<and> backslash_n_free s"

text \<open>Escaping character by character, as \<^verbatim>\<open>formatTextValue\<close> does where no token stands.\<close>

definition escape_chars :: "jsstring \<Rightarrow> jsstring" where
  "escape_chars s = concat (map escape_char s)"






text \<open>The values that the setters store unchanged: a text that is not empty, a name as
  \<^verbatim>\<open>setName\<close> leaves it, a nickname that \<^verbatim>\<open>render\<close> does not skip.\<close>

definition good_text :: "jsstring \<Rightarrow> bool" where
  "good_text t \<longleftrightarrow> t \<noteq> [] \<and> safe_text t"

definition good_name :: "jsstring \<Rightarrow> bool" where
  "good_name n \<longleftrightarrow> good_text n \<and> trim (collapse_spaces False n) = n"

definition good_nickname :: "jsstring \<Rightarrow> bool" where
  "good_nickname n \<longleftrightarrow> safe_text n \<and> trim n \<noteq> []"


text \<open>A contact of version 3 without kind, or of version 4 with one of the four kinds,
  that holds names, nicknames, titles, roles and notes of the kinds above and nothing
  else.\<close>

definition roundtrip_ok :: "contact \<Rightarrow> bool" where
  "roundtrip_ok c \<longleftrightarrow>
     ((specVersion c = 3 \<and> kind c = None) \<or>
      (specVersion c = 4 \<and> kind c \<in> set (map Some KINDS))) \<and>
     name c \<noteq> [] \<and> list_all good_name (name c) \<and>
     list_all good_nickname (nickname c) \<and>
     list_all good_text (title c) \<and> list_all good_text (role c) \<and>
     list_all good_text (note_entries c) \<and>
     photo c = [] \<and> bday c = None \<and> anniversary c = None \<and> gender c = None \<and>
     gender_ident c = None \<and> address c = [] \<and> tel c = [] \<and> email c = [] \<and> impp c = [] \<and>
     logo c = [] \<and> org c = [] \<and> url c = []"




text \<open>The text fields of the version 4 contact of the repository's tests.\<close>

definition text_contact :: contact where
  "text_contact =
     new_VCard\<lparr>specVersion := 4, kind := Some (lit ''individual''),
       name := [lit ''Pamela Mish,aw''], nickname := [lit ''Mo:on''],
       title := [lit ''Super b;abe''], role := [lit ''Corn c:leaner''],
       note_entries := [lit ''Woah, black betty; pambalam..'']\<rparr>"


section \<open>Validation in the setters\<close>

text \<open>
  Claim C7. Each of the calls \<^verbatim>\<open>setGender("boy")\<close>, \<^verbatim>\<open>setKind("animal")\<close>,
  \<^verbatim>\<open>setPhone(n, undefined, ["phone"])\<close>, \<^verbatim>\<open>setEmail("not an email")\<close> and
  \<^verbatim>\<open>setPhoto("photo.jpg")\<close> throws its validation error and leaves the contact as it
  was before the call, whatever the contact and the other arguments are.
\<close>

theorem C7_validation_rejection:
  "setGender (lit ''boy'') ident c = (Some (Error ''Invalid Gender value.''), c) \<and>
   setKind (lit ''animal'') c = (Some (Error ''Invalid Kind value.''), c) \<and>
   setPhone n ex (TypeList [lit ''phone'']) pr c = (Some (Error ''Invalid Type value.''), c) \<and>
   setEmail (lit ''not an email'') pr c = (Some (Error ''Invalid Email value.''), c) \<and>
   setPhoto (lit ''photo.jpg'') c = (Some (Error ''Invalid Image Data URI''), c)"
proof -
  have g: "setGender (lit ''boy'') ident c = (Some (Error ''Invalid Gender value.''), c)"
    by (simp add: setGender_def GENDERS_def lit_def)
  have k: "setKind (lit ''animal'') c = (Some (Error ''Invalid Kind value.''), c)"
    by (simp add: setKind_def KINDS_def trim_def is_space_def toLowerCase_def lit_def)
  have p: "setPhone n ex (TypeList [lit ''phone'']) pr c = (Some (Error ''Invalid Type value.''), c)"
    by (simp add: setPhone_def TEL_TYPES_def lit_def)
  have e: "setEmail (lit ''not an email'') pr c = (Some (Error ''Invalid Email value.''), c)"
    by (simp add: setEmail_def emailRegex_test_def toLowerCase_def lit_def)
  have ph: "setPhoto (lit ''photo.jpg'') c = (Some (Error ''Invalid Image Data URI''), c)"
    by (simp add: setPhoto_def dataUri_match_def lit_def)
  from g k p e ph show ?thesis by blast
qed

text \<open>
  Claim C10. \<^verbatim>\<open>setGender(gender, ident)\<close> throws unless \<^verbatim>\<open>gender\<close> is exactly one of the
  upper-case letters M, F, O, N, U; a throw leaves the contact as it was. On success the
  gender is stored as given and the identity is stored trimmed and in lower case, a
  \<^verbatim>\<open>null\<close> identity as \<^verbatim>\<open>null\<close>. The lower-case code \<^verbatim>\<open>m\<close> is rejected.
\<close>

theorem C10_setGender:
  "setGender g ident c =
     (if g \<in> {lit ''M'', lit ''F'', lit ''O'', lit ''N'', lit ''U''}
      then (None, c\<lparr>gender := Some g,
                    gender_ident := map_option (\<lambda>i. toLowerCase (trim i)) ident\<rparr>)
      else (Some (Error ''Invalid Gender value.''), c)) \<and>
   setGender (lit ''m'') ident c = (Some (Error ''Invalid Gender value.''), c)"
  by (cases ident) (auto simp: setGender_def GENDERS_def trim_def toLowerCase_def lit_def)

theorem C10_setGender_witness:
  "setGender (lit ''F'') (Some (lit '' Non-Binary  '')) new_VCard =
     (None, new_VCard\<lparr>gender := Some (lit ''F''), gender_ident := Some (lit ''non-binary'')\<rparr>)"
  using C10_setGender [of "lit ''F''" "Some (lit '' Non-Binary  '')" new_VCard]
  by (simp add: lit_def trim_def toLowerCase_def is_space_def)

section \<open>The mandatory fields of \<^verbatim>\<open>render\<close>\<close>

lemma collect_Inl: "collect xs = Inl e \<Longrightarrow> Inl e \<in> set xs"
  by (induction xs rule: collect.induct) (auto split: sum.splits)

lemma image_line_error: "image_line v tag u = Inl e \<Longrightarrow> e = TypeError"
  by (auto simp: image_line_def split: if_splits option.splits)

lemma image_lines_error: "image_lines v tag us = Inl e \<Longrightarrow> e = TypeError"
  unfolding image_lines_def by (auto dest!: collect_Inl dest: image_line_error[OF sym])

lemma date_line_error: "date_line v tag d = Inl e \<Longrightarrow> e = RangeError"
  by (auto simp: date_line_def formatDate_def Let_def
           split: option.splits jsdate.splits sum.splits if_splits)

lemma render_sections_error:
  "Inl e \<in> set (render_sections c) \<Longrightarrow> e = TypeError \<or> e = RangeError"
  unfolding render_sections_def Let_def
  by (auto dest: image_lines_error[OF sym] date_line_error[OF sym] split: if_splits)

text \<open>
  Claim C5. \<^verbatim>\<open>render\<close> fails whenever the contact has no name, whatever the version is
  (with the error for the missing kind when the version is 4 and the kind is missing
  too, since that check comes first, and with the error for the missing name otherwise);
  it fails with the error for the missing kind when the version is 4 and the kind is
  unset; and for a contact with a name, and with a kind when the version is 4, it raises
  neither of the two errors.
\<close>

theorem C5_mandatory_fields:
  "(name c = [] \<longrightarrow>
      render c = Inl (Error (if specVersion c = 4 \<and> kind_missing c
                             then ''Missing Kind property (Required in Version 4)''
                             else ''Missing Name property.''))) \<and>
   (specVersion c = 4 \<and> kind c = None \<longrightarrow>
      render c = Inl (Error ''Missing Kind property (Required in Version 4)'')) \<and>
   (name c \<noteq> [] \<and> (specVersion c = 4 \<longrightarrow> \<not> kind_missing c) \<longrightarrow>
      render c \<noteq> Inl (Error ''Missing Kind property (Required in Version 4)'') \<and>
      render c \<noteq> Inl (Error ''Missing Name property.''))"
proof (intro conjI impI)
  assume "name c = []"
  then show "render c = Inl (Error (if specVersion c = 4 \<and> kind_missing c
                             then ''Missing Kind property (Required in Version 4)''
                             else ''Missing Name property.''))"
    by (simp add: render_def render_parts_def)
next
  assume "specVersion c = 4 \<and> kind c = None"
  then show "render c = Inl (Error ''Missing Kind property (Required in Version 4)'')"
    by (simp add: render_def render_parts_def kind_missing_def)
next
  assume a: "name c \<noteq> [] \<and> (specVersion c = 4 \<longrightarrow> \<not> kind_missing c)"
  then have rp: "render_parts c = collect (render_sections c)"
    by (auto simp: render_parts_def)
  have "render c \<noteq> Inl (Error m)" for m
  proof
    assume "render c = Inl (Error m)"
    then have "collect (render_sections c) = Inl (Error m)"
      using rp by (simp add: render_def split: sum.splits)
    then have "Inl (Error m) \<in> set (render_sections c)" by (rule collect_Inl)
    then show False by (auto dest: render_sections_error)
  qed
  then show "render c \<noteq> Inl (Error ''Missing Kind property (Required in Version 4)'')"
    and "render c \<noteq> Inl (Error ''Missing Name property.'')" by blast+
qed

theorem C5_mandatory_fields_witness:
  "render new_VCard = Inl (Error ''Missing Kind property (Required in Version 4)'') \<and>
   render (new_VCard\<lparr>specVersion := 3\<rparr>) = Inl (Error ''Missing Name property.'') \<and>
   render (new_VCard\<lparr>specVersion := 3, name := [lit ''Bob'']\<rparr>)
     \<noteq> Inl (Error ''Missing Name property.'') \<and>
   render (new_VCard\<lparr>kind := Some (lit ''org''), name := [lit ''Bob'']\<rparr>)
     \<noteq> Inl (Error ''Missing Kind property (Required in Version 4)'')"
  using C5_mandatory_fields [of new_VCard]
        C5_mandatory_fields [of "new_VCard\<lparr>specVersion := 3\<rparr>"]
        C5_mandatory_fields [of "new_VCard\<lparr>specVersion := 3, name := [lit ''Bob'']\<rparr>"]
        C5_mandatory_fields [of "new_VCard\<lparr>kind := Some (lit ''org''), name := [lit ''Bob'']\<rparr>"]
  by (simp add: new_VCard_def kind_missing_def lit_def)


section \<open>White space in names\<close>

lemma no_adjacent_Cons:
  "no_adjacent_spaces (a # xs) \<longleftrightarrow>
     (xs = [] \<or> \<not> (is_space a \<and> is_space (hd xs))) \<and> no_adjacent_spaces xs"
  by (cases xs) auto

lemma no_adjacent_append:
  "no_adjacent_spaces (xs @ ys) \<Longrightarrow> no_adjacent_spaces xs \<and> no_adjacent_spaces ys"
  by (induction xs rule: no_adjacent_spaces.induct) (auto simp: no_adjacent_Cons)

lemma collapse_True_hd:
  "collapse_spaces True s \<noteq> [] \<Longrightarrow> \<not> is_space (hd (collapse_spaces True s))"
  by (induction s) (auto split: if_splits)

lemma no_adjacent_collapse: "no_adjacent_spaces (collapse_spaces b s)"
proof (induction s arbitrary: b)
  case Nil
  then show ?case by simp
next
  case (Cons c cs)
  then show ?case
    using collapse_True_hd[of cs]
    by (auto simp: no_adjacent_Cons is_space_def)
qed

lemma no_adjacent_trim: "no_adjacent_spaces s \<Longrightarrow> no_adjacent_spaces (trim s)"
proof -
  assume a: "no_adjacent_spaces s"
  have "s = takeWhile is_space s @ dropWhile is_space s" by simp
  with a have b: "no_adjacent_spaces (dropWhile is_space s)"
    by (metis no_adjacent_append)
  let ?t = "dropWhile is_space s"
  have "rev ?t = takeWhile is_space (rev ?t) @ dropWhile is_space (rev ?t)" by simp
  then have "?t = rev (dropWhile is_space (rev ?t)) @ rev (takeWhile is_space (rev ?t))"
    by (metis rev_append rev_rev_ident)
  with b have "no_adjacent_spaces (rev (dropWhile is_space (rev ?t)))"
    by (metis no_adjacent_append)
  then show ?thesis by (simp add: trim_def)
qed

lemma last_dropWhile: "dropWhile P xs \<noteq> [] \<Longrightarrow> last (dropWhile P xs) = last xs"
  by (induction xs) (auto split: if_splits)

lemma trim_ends: "trim s \<noteq> [] \<Longrightarrow> \<not> is_space (hd (trim s)) \<and> \<not> is_space (last (trim s))"
proof -
  assume a: "trim s \<noteq> []"
  let ?t = "dropWhile is_space s"
  let ?u = "dropWhile is_space (rev ?t)"
  from a have u: "?u \<noteq> []" by (simp add: trim_def)
  have t: "?t \<noteq> []"
  proof
    assume e: "?t = []"
    have "?u = []" unfolding e by simp
    with u show False by simp
  qed
  have "last (trim s) = hd ?u" using u by (simp add: trim_def last_rev)
  moreover have "\<not> is_space (hd ?u)" using u by (rule hd_dropWhile)
  moreover have "hd (trim s) = last ?u" using u by (simp add: trim_def hd_rev)
  moreover have "last ?u = last (rev ?t)" using u by (rule last_dropWhile)
  moreover have "last (rev ?t) = hd ?t" using t by (simp add: last_rev)
  moreover have "\<not> is_space (hd ?t)" using t by (rule hd_dropWhile)
  ultimately show ?thesis by simp
qed

lemma filter_dropWhile_neg: "filter (\<lambda>x. \<not> P x) (dropWhile P xs) = filter (\<lambda>x. \<not> P x) xs"
  by (induction xs) auto

lemma filter_trim: "filter (\<lambda>x. \<not> is_space x) (trim s) = filter (\<lambda>x. \<not> is_space x) s"
proof -
  have "filter (\<lambda>x. \<not> is_space x) (trim s)
        = rev (filter (\<lambda>x. \<not> is_space x) (dropWhile is_space (rev (dropWhile is_space s))))"
    by (simp add: trim_def rev_filter)
  also have "\<dots> = rev (filter (\<lambda>x. \<not> is_space x) (rev (dropWhile is_space s)))"
    by (simp only: filter_dropWhile_neg)
  also have "\<dots> = filter (\<lambda>x. \<not> is_space x) (dropWhile is_space s)"
    by (simp add: rev_filter)
  finally show ?thesis by (simp add: filter_dropWhile_neg)
qed

lemma filter_collapse:
  "filter (\<lambda>x. \<not> is_space x) (collapse_spaces b s) = filter (\<lambda>x. \<not> is_space x) s"
  by (induction s arbitrary: b) (auto simp: is_space_def)

lemma set_trim: "set (trim s) \<subseteq> set s"
  by (metis trim_def set_rev set_dropWhileD subsetI)

lemma collapse_spaces_only:
  "x \<in> set (collapse_spaces b s) \<Longrightarrow> is_space x \<Longrightarrow> x = SPACE"
  by (induction s arbitrary: b) (auto split: if_splits)


lemma words_of_nonempty: "cur \<noteq> [] \<Longrightarrow> words_of cur s \<noteq> []"
  by (induction s arbitrary: cur) auto

lemma words_of_words:
  "list_all (\<lambda>x. \<not> is_space x) cur \<Longrightarrow>
   \<forall>w\<in>set (words_of cur s). w \<noteq> [] \<and> list_all (\<lambda>x. \<not> is_space x) w"
proof (induction s arbitrary: cur)
  case Nil
  then show ?case by auto
next
  case (Cons a s)
  show ?case
  proof (cases "is_space a")
    case True
    with Cons.prems Cons.IH[of "[]"] show ?thesis by auto
  next
    case False
    with Cons.prems Cons.IH[of "cur @ [a]"] show ?thesis by auto
  qed
qed

lemma join_Cons: "join sep (x # xs) = (if xs = [] then x else x @ sep @ join sep xs)"
  by (cases xs) auto

lemma collapse_words:
  "(cur \<noteq> [] \<longrightarrow>
      cur @ collapse_spaces False s =
        join [SPACE] (words_of cur s) @ (if ends_with_space s then [SPACE] else [])) \<and>
   collapse_spaces True s =
     join [SPACE] (words_of [] s) @
       (if words_of [] s \<noteq> [] \<and> ends_with_space s then [SPACE] else [])"
proof (induction s arbitrary: cur)
  case Nil
  then show ?case by (simp add: ends_with_space_def)
next
  case (Cons c cs)
  have T: "collapse_spaces True cs =
     join [SPACE] (words_of [] cs) @
       (if words_of [] cs \<noteq> [] \<and> ends_with_space cs then [SPACE] else [])"
    using Cons.IH[of "[]"] by simp
  have S: "u \<noteq> [] \<Longrightarrow> u @ collapse_spaces False cs =
        join [SPACE] (words_of u cs) @ (if ends_with_space cs then [SPACE] else [])" for u
    using Cons.IH[of u] by simp
  show ?case
  proof (cases "is_space c")
    case True
    have e: "words_of [] cs \<noteq> [] \<Longrightarrow> cs \<noteq> []" by auto
    have all_sp: "words_of [] cs = [] \<Longrightarrow> ends_with_space (c # cs)"
    proof -
      assume w: "words_of [] cs = []"
      have "words_of [] t = [] \<Longrightarrow> list_all is_space t" for t
      proof (induction t)
        case Nil then show ?case by simp
      next
        case (Cons a t)
        then show ?case using words_of_nonempty[of "[a]" t] by (auto split: if_splits)
      qed
      with w have "list_all is_space (c # cs)" using True by simp
      then show ?thesis
        unfolding ends_with_space_def by (metis last_in_set list.distinct(1) list_all_iff)
    qed
    show ?thesis
    proof (cases "words_of [] cs = []")
      case w: True
      with True T all_sp show ?thesis by (auto simp: join_Cons)
    next
      case w: False
      then have "cs \<noteq> []" by auto
      then have "ends_with_space (c # cs) = ends_with_space cs"
        by (simp add: ends_with_space_def)
      with True T w show ?thesis by (auto simp: join_Cons)
    qed
  next
    case False
    have e: "ends_with_space (c # cs) = ends_with_space cs"
      using False by (auto simp: ends_with_space_def)
    have "cur @ collapse_spaces False (c # cs) = (cur @ [c]) @ collapse_spaces False cs"
      using False by simp
    also have "\<dots> = join [SPACE] (words_of (cur @ [c]) cs) @ (if ends_with_space cs then [SPACE] else [])"
      by (rule S) simp
    finally have 1: "cur @ collapse_spaces False (c # cs) =
        join [SPACE] (words_of cur (c # cs)) @ (if ends_with_space (c # cs) then [SPACE] else [])"
      using False e by simp
    have "collapse_spaces True (c # cs) = [c] @ collapse_spaces False cs"
      using False by simp
    also have "\<dots> = join [SPACE] (words_of [c] cs) @ (if ends_with_space cs then [SPACE] else [])"
      by (rule S) simp
    finally have 2: "collapse_spaces True (c # cs) =
     join [SPACE] (words_of [] (c # cs)) @
       (if words_of [] (c # cs) \<noteq> [] \<and> ends_with_space (c # cs) then [SPACE] else [])"
      using False e words_of_nonempty[of "[c]" cs] by simp
    from 1 2 show ?thesis by blast
  qed
qed

lemma dropWhile_collapse: "dropWhile is_space (collapse_spaces b s) = collapse_spaces True s"
proof (cases s)
  case Nil
  then show ?thesis by simp
next
  case (Cons c cs)
  have t: "dropWhile is_space (collapse_spaces True u) = collapse_spaces True u" for u
    using collapse_True_hd[of u] by (cases "collapse_spaces True u") auto
  show ?thesis
  proof (cases b)
    case True
    then show ?thesis using t by simp
  next
    case False
    then show ?thesis using Cons t[of cs] by (auto simp: is_space_def)
  qed
qed

lemma join_nonempty: "ws \<noteq> [] \<Longrightarrow> \<forall>w\<in>set ws. w \<noteq> [] \<Longrightarrow> join sep ws \<noteq> []"
  by (induction sep ws rule: join.induct) auto

lemma last_join:
  "ws \<noteq> [] \<Longrightarrow> \<forall>w\<in>set ws. w \<noteq> [] \<Longrightarrow> last (join sep ws) = last (last ws)"
proof (induction sep ws rule: join.induct)
  case (3 sep x y ys)
  have "join sep (y # ys) \<noteq> []" using 3 by (intro join_nonempty) auto
  with 3 show ?case by simp
qed auto

lemma trim_collapse_words: "trim (collapse_spaces False n) = join [SPACE] (words_of [] n)"
proof (cases "words_of [] n = []")
  case True
  then show ?thesis
    using collapse_words[of "[]" n] by (simp add: trim_def dropWhile_collapse)
next
  case False
  let ?J = "join [SPACE] (words_of [] n)"
  have ww: "\<forall>w\<in>set (words_of [] n). w \<noteq> [] \<and> list_all (\<lambda>x. \<not> is_space x) w"
    using words_of_words[of "[]" n] by simp
  then have ne: "?J \<noteq> []" using False join_nonempty by blast
  have "last ?J = last (last (words_of [] n))"
    using False ww last_join by blast
  moreover have "\<not> is_space (last (last (words_of [] n)))"
    using False ww by (metis last_in_set list_all_iff)
  ultimately have nl: "\<not> is_space (last ?J)" by simp
  have d: "dropWhile is_space (rev ?J) = rev ?J"
    using ne nl by (cases "rev ?J") (auto simp: last_rev[symmetric] hd_rev)
  have "collapse_spaces True n = ?J \<or> collapse_spaces True n = ?J @ [SPACE]"
    using collapse_words[of "[]" n] by (auto split: if_splits)
  then show ?thesis
  proof
    assume "collapse_spaces True n = ?J"
    then show ?thesis by (simp add: trim_def dropWhile_collapse d)
  next
    assume "collapse_spaces True n = ?J @ [SPACE]"
    then show ?thesis by (simp add: trim_def dropWhile_collapse d is_space_def)
  qed
qed

text \<open>
  Claim C9. \<^verbatim>\<open>setName\<close> always succeeds and appends the name normalised: the words of
  the argument joined by single spaces. The entry has no two adjacent white-space
  characters and neither begins nor ends with one, and a list of names that are normal
  stays so.
\<close>

theorem C9_setName_normalises:
  "setName n c = (None, c\<lparr>name := name c @ [join [SPACE] (words_of [] n)]\<rparr>) \<and>
   whitespace_normal (join [SPACE] (words_of [] n)) \<and>
   (list_all whitespace_normal (name c) \<longrightarrow>
      list_all whitespace_normal (name (snd (setName n c))))"
proof -
  have eq: "trim (collapse_spaces False n) = join [SPACE] (words_of [] n)"
    by (rule trim_collapse_words)
  have "no_adjacent_spaces (trim (collapse_spaces False n))"
    by (intro no_adjacent_trim no_adjacent_collapse)
  moreover have "trim (collapse_spaces False n) = [] \<or>
      (\<not> is_space (hd (trim (collapse_spaces False n))) \<and>
       \<not> is_space (last (trim (collapse_spaces False n))))"
    using trim_ends by blast
  ultimately have wn: "whitespace_normal (join [SPACE] (words_of [] n))"
    unfolding whitespace_normal_def eq by simp
  then show ?thesis by (simp add: setName_def eq)
qed

theorem C9_setName_normalises_witness:
  "setName ([9, 32] @ lit ''Pamela'' @ [32, 10, 160] @ lit ''Mishaw'' @ [32]) new_VCard =
     (None, new_VCard\<lparr>name := [lit ''Pamela Mishaw'']\<rparr>) \<and>
   whitespace_normal (lit ''Pamela Mishaw'')"
  using C9_setName_normalises
          [of "[9, 32] @ lit ''Pamela'' @ [32, 10, 160] @ lit ''Mishaw'' @ [32]" new_VCard]
  by (simp add: new_VCard_def lit_def is_space_def)

section \<open>Preferred entries\<close>

lemma setPhone_tel:
  "setPhone ph ex ty pr c = (None, c') \<Longrightarrow> tel c' = push_tel (tel c) (ph, ex, ty, pr)"
  by (auto simp: setPhone_def push_tel_def types_of_def Let_def split: if_splits)

lemma for_each_setPhone_tel:
  "for_each (\<lambda>(ph, ex, ty, pr). setPhone ph ex ty pr) calls c = (None, c') \<Longrightarrow>
   tel c' = foldl push_tel (tel c) calls"
proof (induction calls arbitrary: c)
  case Nil
  then show ?case by simp
next
  case (Cons x xs)
  obtain ph ex ty pr where x: "x = (ph, ex, ty, pr)" by (cases x) auto
  from Cons.prems obtain c1 where 1: "setPhone ph ex ty pr c = (None, c1)"
    and 2: "for_each (\<lambda>(ph, ex, ty, pr). setPhone ph ex ty pr) xs c1 = (None, c')"
    by (auto simp: x and_then_def split: prod.splits option.splits)
  from Cons.IH[OF 2] setPhone_tel[OF 1] show ?case by (simp add: x)
qed

lemma foldl_push_tel_no_pref:
  "\<forall>x\<in>set post. \<not> snd (snd (snd x)) \<Longrightarrow>
   foldl push_tel xs post =
     xs @ map (\<lambda>(ph, ex, ty, pr). \<lparr>tel_phone = ph, tel_ext = ex, tel_type = types_of ty, tel_pref = False\<rparr>) post"
  by (induction post arbitrary: xs) (auto simp: push_tel_def)

lemma foldl_push_tel_length: "length (foldl push_tel xs calls) = length xs + length calls"
  by (induction calls arbitrary: xs) (auto simp: push_tel_def split: prod.splits)

lemma tel_last_preferred:
  assumes "\<forall>x\<in>set post. \<not> snd (snd (snd x))"
  shows "\<exists>before after.
           foldl push_tel xs (pre @ (ph, ex, ty, True) # post) =
             before @ \<lparr>tel_phone = ph, tel_ext = ex, tel_type = types_of ty, tel_pref = True\<rparr> # after \<and>
           length before = length xs + length pre \<and>
           list_all (\<lambda>e. \<not> tel_pref e) before \<and> list_all (\<lambda>e. \<not> tel_pref e) after"
proof -
  let ?mid = "foldl push_tel xs pre"
  let ?e = "\<lparr>tel_phone = ph, tel_ext = ex, tel_type = types_of ty, tel_pref = True\<rparr>"
  let ?after = "map (\<lambda>(ph, ex, ty, pr). \<lparr>tel_phone = ph, tel_ext = ex, tel_type = types_of ty, tel_pref = False\<rparr>) post"
  have "foldl push_tel xs (pre @ (ph, ex, ty, True) # post)
          = foldl push_tel (map (\<lambda>e. e\<lparr>tel_pref := False\<rparr>) ?mid @ [?e]) post"
    by (simp add: push_tel_def)
  also have "\<dots> = map (\<lambda>e. e\<lparr>tel_pref := False\<rparr>) ?mid @ ?e # ?after"
    using foldl_push_tel_no_pref[OF assms] by simp
  finally have eq: "foldl push_tel xs (pre @ (ph, ex, ty, True) # post)
      = map (\<lambda>e. e\<lparr>tel_pref := False\<rparr>) ?mid @ ?e # ?after" .
  have "list_all (\<lambda>e. \<not> tel_pref e) (map (\<lambda>e. e\<lparr>tel_pref := False\<rparr>) ?mid)"
    by (simp add: list_all_iff)
  moreover have "list_all (\<lambda>e. \<not> tel_pref e) ?after"
    by (auto simp: list_all_iff)
  moreover have "length (map (\<lambda>e. e\<lparr>tel_pref := False\<rparr>) ?mid) = length xs + length pre"
    by (simp add: foldl_push_tel_length)
  ultimately show ?thesis using eq by blast
qed

lemma setEmail_email:
  "setEmail em pr c = (None, c') \<Longrightarrow> email c' = push_email (email c) (em, pr)"
  by (auto simp: setEmail_def push_email_def Let_def split: if_splits)

lemma for_each_setEmail_email:
  "for_each (\<lambda>(em, pr). setEmail em pr) calls c = (None, c') \<Longrightarrow>
   email c' = foldl push_email (email c) calls"
proof (induction calls arbitrary: c)
  case Nil
  then show ?case by simp
next
  case (Cons x xs)
  obtain em pr where x: "x = (em, pr)" by (cases x) auto
  from Cons.prems obtain c1 where 1: "setEmail em pr c = (None, c1)"
    and 2: "for_each (\<lambda>(em, pr). setEmail em pr) xs c1 = (None, c')"
    by (auto simp: x and_then_def split: prod.splits option.splits)
  from Cons.IH[OF 2] setEmail_email[OF 1] show ?case by (simp add: x)
qed

lemma foldl_push_email_no_pref:
  "\<forall>x\<in>set post. \<not> snd x \<Longrightarrow>
   foldl push_email xs post =
     xs @ map (\<lambda>(em, pr). \<lparr>email_address = em, email_pref = False\<rparr>) post"
  by (induction post arbitrary: xs) (auto simp: push_email_def)

lemma foldl_push_email_length: "length (foldl push_email xs calls) = length xs + length calls"
  by (induction calls arbitrary: xs) (auto simp: push_email_def split: prod.splits)

lemma email_last_preferred:
  assumes "\<forall>x\<in>set post. \<not> snd x"
  shows "\<exists>before after.
           foldl push_email xs (pre @ (em, True) # post) =
             before @ \<lparr>email_address = em, email_pref = True\<rparr> # after \<and>
           length before = length xs + length pre \<and>
           list_all (\<lambda>e. \<not> email_pref e) before \<and> list_all (\<lambda>e. \<not> email_pref e) after"
proof -
  let ?mid = "foldl push_email xs pre"
  let ?e = "\<lparr>email_address = em, email_pref = True\<rparr>"
  let ?after = "map (\<lambda>(em, pr). \<lparr>email_address = em, email_pref = False\<rparr>) post"
  have "foldl push_email xs (pre @ (em, True) # post)
          = foldl push_email (map (\<lambda>e. e\<lparr>email_pref := False\<rparr>) ?mid @ [?e]) post"
    by (simp add: push_email_def)
  also have "\<dots> = map (\<lambda>e. e\<lparr>email_pref := False\<rparr>) ?mid @ ?e # ?after"
    using foldl_push_email_no_pref[OF assms] by simp
  finally have eq: "foldl push_email xs (pre @ (em, True) # post)
      = map (\<lambda>e. e\<lparr>email_pref := False\<rparr>) ?mid @ ?e # ?after" .
  have "list_all (\<lambda>e. \<not> email_pref e) (map (\<lambda>e. e\<lparr>email_pref := False\<rparr>) ?mid)"
    by (simp add: list_all_iff)
  moreover have "list_all (\<lambda>e. \<not> email_pref e) ?after"
    by (auto simp: list_all_iff)
  moreover have "length (map (\<lambda>e. e\<lparr>email_pref := False\<rparr>) ?mid) = length xs + length pre"
    by (simp add: foldl_push_email_length)
  ultimately show ?thesis using eq by blast
qed

lemma filter_single:
  "list_all (\<lambda>e. \<not> P e) before \<Longrightarrow> list_all (\<lambda>e. \<not> P e) after \<Longrightarrow> P x \<Longrightarrow>
   filter P (before @ x # after) = [x]"
  by (simp add: list_all_iff)

text \<open>
  Claim C4. Take any contact and any sequence of \<^verbatim>\<open>setPhone\<close> calls that return, and
  let the last call with \<^verbatim>\<open>pref=true\<close> be the one after \<open>pre\<close> and before \<open>post\<close>. Then
  exactly one stored phone entry is preferred: the one that this call added, which
  stands at the position of the call. The same holds for \<^verbatim>\<open>setEmail\<close>.
\<close>

theorem C4_last_preferred_wins:
  "(for_each (\<lambda>(ph, ex, ty, pr). setPhone ph ex ty pr) (pre @ (ph, ex, ty, True) # post) c
      = (None, c') \<and> (\<forall>x\<in>set post. \<not> snd (snd (snd x))) \<longrightarrow>
      filter tel_pref (tel c') =
        [\<lparr>tel_phone = ph, tel_ext = ex, tel_type = types_of ty, tel_pref = True\<rparr>] \<and>
      length (tel c') = length (tel c) + length pre + 1 + length post \<and>
      tel c' ! (length (tel c) + length pre) =
        \<lparr>tel_phone = ph, tel_ext = ex, tel_type = types_of ty, tel_pref = True\<rparr>) \<and>
   (for_each (\<lambda>(em, pr). setEmail em pr) (epre @ (em, True) # epost) d = (None, d') \<and>
      (\<forall>x\<in>set epost. \<not> snd x) \<longrightarrow>
      filter email_pref (email d') = [\<lparr>email_address = em, email_pref = True\<rparr>] \<and>
      length (email d') = length (email d) + length epre + 1 + length epost \<and>
      email d' ! (length (email d) + length epre) = \<lparr>email_address = em, email_pref = True\<rparr>)"
proof (intro conjI impI)
  assume a: "for_each (\<lambda>(ph, ex, ty, pr). setPhone ph ex ty pr) (pre @ (ph, ex, ty, True) # post) c
      = (None, c') \<and> (\<forall>x\<in>set post. \<not> snd (snd (snd x)))"
  let ?e = "\<lparr>tel_phone = ph, tel_ext = ex, tel_type = types_of ty, tel_pref = True\<rparr>"
  from a have t: "tel c' = foldl push_tel (tel c) (pre @ (ph, ex, ty, True) # post)"
    by (intro for_each_setPhone_tel) simp
  from a obtain before after where
    d: "foldl push_tel (tel c) (pre @ (ph, ex, ty, True) # post) = before @ ?e # after"
    and l: "length before = length (tel c) + length pre"
    and b: "list_all (\<lambda>e. \<not> tel_pref e) before" "list_all (\<lambda>e. \<not> tel_pref e) after"
    using tel_last_preferred[of post "tel c" pre ph ex ty] by blast
  show "filter tel_pref (tel c') = [?e]"
    unfolding t d using b by (intro filter_single) simp_all
  show "length (tel c') = length (tel c) + length pre + 1 + length post"
    unfolding t foldl_push_tel_length by simp
  show "tel c' ! (length (tel c) + length pre) = ?e"
    unfolding t d l[symmetric] by simp
next
  assume a: "for_each (\<lambda>(em, pr). setEmail em pr) (epre @ (em, True) # epost) d = (None, d') \<and>
      (\<forall>x\<in>set epost. \<not> snd x)"
  let ?e = "\<lparr>email_address = em, email_pref = True\<rparr>"
  from a have t: "email d' = foldl push_email (email d) (epre @ (em, True) # epost)"
    by (intro for_each_setEmail_email) simp
  from a obtain before after where
    dd: "foldl push_email (email d) (epre @ (em, True) # epost) = before @ ?e # after"
    and l: "length before = length (email d) + length epre"
    and b: "list_all (\<lambda>e. \<not> email_pref e) before" "list_all (\<lambda>e. \<not> email_pref e) after"
    using email_last_preferred[of epost "email d" epre em] by blast
  show "filter email_pref (email d') = [?e]"
    unfolding t dd using b by (intro filter_single) simp_all
  show "length (email d') = length (email d) + length epre + 1 + length epost"
    unfolding t foldl_push_email_length by simp
  show "email d' ! (length (email d) + length epre) = ?e"
    unfolding t dd l[symmetric] by simp
qed

theorem C4_last_preferred_wins_witness:
  "map tel_phone (filter tel_pref (tel (snd (for_each (\<lambda>(ph, ex, ty, pr). setPhone ph ex ty pr)
      [(lit ''8187776543'', lit ''123'', TypeString (lit ''text''), True),
       (lit ''8675309'', [], TypeList [], True),
       (lit ''555'', [], TypeList [lit ''fax''], False)] new_VCard)))) = [lit ''8675309''] \<and>
   map email_address (filter email_pref (email (snd (for_each (\<lambda>(em, pr). setEmail em pr)
      [(lit ''email@me.com'', True), (lit ''email@you.com'', True)] new_VCard)))) =
     [lit ''email@you.com'']"
proof -
  define cs where "cs = [(lit ''8187776543'', lit ''123'', TypeString (lit ''text''), True),
       (lit ''8675309'', [], TypeList [], True),
       (lit ''555'', [], TypeList [lit ''fax''], False)]"
  define es where "es = [(lit ''email@me.com'', True), (lit ''email@you.com'', True)]"
  have p: "fst (for_each (\<lambda>(ph, ex, ty, pr). setPhone ph ex ty pr) cs new_VCard) = None"
    by (simp add: cs_def and_then_def setPhone_def TEL_TYPES_def lit_def)
  have e: "fst (for_each (\<lambda>(em, pr). setEmail em pr) es new_VCard) = None"
    by (simp add: es_def and_then_def setEmail_def emailRegex_test_def toLowerCase_def
          email_local_def email_domain_def email_atom_char_def is_space_def is_alpha_def
          is_digit_def lit_def)
  show ?thesis
    using p e
      C4_last_preferred_wins
        [of "[(lit ''8187776543'', lit ''123'', TypeString (lit ''text''), True)]"
            "lit ''8675309''" "[]" "TypeList []"
            "[(lit ''555'', [], TypeList [lit ''fax''], False)]" new_VCard
            "snd (for_each (\<lambda>(ph, ex, ty, pr). setPhone ph ex ty pr) cs new_VCard)"
            "[(lit ''email@me.com'', True)]" "lit ''email@you.com''" "[]" new_VCard
            "snd (for_each (\<lambda>(em, pr). setEmail em pr) es new_VCard)"]
    unfolding cs_def es_def
    by (simp add: prod_eq_iff)
qed


section \<open>Folding\<close>

lemma fold_loop_units: "fold_loop s lines cur k = fold_units (units s) lines cur k"
  by (induction s lines cur k rule: fold_loop.induct) (simp_all add: Let_def)

lemma next_unit_props:
  "NL \<notin> set (fst (next_unit c cs)) \<and> fst (next_unit c cs) \<noteq> [] \<and>
   blob_size (fst (next_unit c cs)) \<le> 4"
  by (auto simp: next_unit_def escape_char_def Let_def blob_size_def utf8_len_def lit_def)

lemma units_props: "u \<in> set (units s) \<Longrightarrow> NL \<notin> set u \<and> u \<noteq> [] \<and> blob_size u \<le> 4"
  by (induction s rule: units.induct) (use next_unit_props in auto)

lemma blob_size_append [simp]: "blob_size (xs @ ys) = blob_size xs + blob_size ys"
  by (simp add: blob_size_def)

lemma blob_size_Cons: "blob_size (x # xs) = utf8_len x + blob_size xs"
  by (simp add: blob_size_def)

lemma fold_units_bound:
  "\<forall>l\<in>set lines. blob_size l \<le> 75 \<Longrightarrow> blob_size cur = k \<Longrightarrow> k \<le> 75 \<Longrightarrow>
   \<forall>u\<in>set us. blob_size u \<le> 4 \<Longrightarrow>
   \<forall>l\<in>set (fold_units us lines cur k). blob_size l \<le> 75"
proof (induction us arbitrary: lines cur k)
  case Nil
  then show ?case by auto
next
  case (Cons u us)
  have u4: "blob_size u \<le> 4" using Cons.prems by simp
  show ?case
  proof (cases "k + blob_size u > 75")
    case True
    have "\<forall>l\<in>set (fold_units us (lines @ [cur]) (SPACE # u) (1 + blob_size u)). blob_size l \<le> 75"
      using Cons.prems u4 by (intro Cons.IH) (auto simp: blob_size_Cons utf8_len_def)
    with True show ?thesis by simp
  next
    case False
    have "\<forall>l\<in>set (fold_units us lines (cur @ u) (k + blob_size u)). blob_size l \<le> 75"
      using Cons.prems False by (intro Cons.IH) auto
    with False show ?thesis by simp
  qed
qed

lemma fold_units_no_NL:
  "\<forall>l\<in>set lines. NL \<notin> set l \<Longrightarrow> NL \<notin> set cur \<Longrightarrow> \<forall>u\<in>set us. NL \<notin> set u \<Longrightarrow>
   \<forall>l\<in>set (fold_units us lines cur k). NL \<notin> set l"
proof (induction us arbitrary: lines cur k)
  case Nil
  then show ?case by simp
next
  case (Cons u us)
  show ?case
  proof (cases "k + blob_size u > 75")
    case True
    have "\<forall>l\<in>set (fold_units us (lines @ [cur]) (SPACE # u) (1 + blob_size u)). NL \<notin> set l"
      using Cons.prems by (intro Cons.IH) simp_all
    with True show ?thesis by simp
  next
    case False
    have "\<forall>l\<in>set (fold_units us lines (cur @ u) (k + blob_size u)). NL \<notin> set l"
      using Cons.prems by (intro Cons.IH) simp_all
    with False show ?thesis by simp
  qed
qed

lemma fold_units_nonempty: "fold_units us lines cur k \<noteq> []"
  by (induction us arbitrary: lines cur k) auto


lemma split_on_nonempty: "split_on d s \<noteq> []"
  by (induction s) (auto split: list.splits)

lemma split_on_no_delim: "d \<notin> set s \<Longrightarrow> split_on d s = [s]"
  by (induction s) auto

lemma split_on_append:
  "d \<notin> set a \<Longrightarrow> split_on d (a @ d # b) = a # split_on d b"
  by (induction a) (auto simp: split_on_nonempty split: list.splits)

lemma split_on_join:
  "ls \<noteq> [] \<Longrightarrow> \<forall>l\<in>set ls. d \<notin> set l \<Longrightarrow> split_on d (join [d] ls) = ls"
proof (induction "[d]" ls rule: join.induct)
  case 1
  then show ?case by simp
next
  case (2 x)
  then show ?case by (simp add: split_on_no_delim)
next
  case (3 x y ys)
  then show ?case by (simp add: split_on_append)
qed

lemma replace2_cut:
  "xs = [] \<or> last xs \<noteq> a \<Longrightarrow> replace2 a b r (xs @ ys) = replace2 a b r xs @ replace2 a b r ys"
  apply (induction a b r xs rule: replace2.induct)
  subgoal by (auto split: if_splits)
  subgoal by simp
  subgoal by (cases ys) auto
  done

lemma replace2_id: "a \<notin> set xs \<Longrightarrow> replace2 a b r xs = xs"
  by (induction a b r xs rule: replace2.induct) auto

lemma join_snoc: "join sep (ls @ [x @ y]) = join sep (ls @ [x]) @ y"
  by (induction sep ls rule: join.induct) auto

lemma join_snoc2: "join sep (ls @ [x, y]) = join sep (ls @ [x]) @ sep @ y"
  by (induction sep ls rule: join.induct) auto

lemma not_in_set_last: "a \<notin> set xs \<Longrightarrow> xs = [] \<or> last xs \<noteq> a"
  by (cases xs rule: rev_cases) auto

lemma unfold_skip: "NL \<notin> set P \<Longrightarrow> unfold_lines (P @ NL # SPACE # R) = P @ unfold_lines R"
proof -
  assume a: "NL \<notin> set P"
  then have "P = [] \<or> last P \<noteq> NL" by (rule not_in_set_last)
  then have "replace2 NL SPACE [] (P @ NL # SPACE # R) =
             replace2 NL SPACE [] P @ replace2 NL SPACE [] (NL # SPACE # R)"
    by (rule replace2_cut)
  with a show ?thesis by (simp add: unfold_lines_def replace2_id)
qed


lemma unfold_fold_units:
  "\<forall>u\<in>set us. NL \<notin> set u \<and> u \<noteq> [] \<Longrightarrow>
   \<exists>W. join [NL] (fold_units us lines cur k) = join [NL] (lines @ [cur]) @ W \<and>
       (\<forall>P. NL \<notin> set P \<longrightarrow> unfold_lines (P @ W) = P @ concat us) \<and>
       (W = [] \<or> last W \<noteq> NL)"
proof (induction us arbitrary: lines cur k)
  case Nil
  then show ?case by (simp add: unfold_lines_def replace2_id)
next
  case (Cons u us)
  have u: "NL \<notin> set u" "u \<noteq> []" using Cons.prems by auto
  have us: "\<forall>u\<in>set us. NL \<notin> set u \<and> u \<noteq> []" using Cons.prems by auto
  show ?case
  proof (cases "k + blob_size u > 75")
    case True
    from Cons.IH[OF us, of "lines @ [cur]" "SPACE # u" "1 + blob_size u"]
    obtain W where W: "join [NL] (fold_units us (lines @ [cur]) (SPACE # u) (1 + blob_size u)) =
          join [NL] ((lines @ [cur]) @ [SPACE # u]) @ W"
      and W2: "\<forall>P. NL \<notin> set P \<longrightarrow> unfold_lines (P @ W) = P @ concat us"
      and W3: "W = [] \<or> last W \<noteq> NL" by (elim exE conjE) (rule that)
    let ?W = "[NL, SPACE] @ u @ W"
    have 1: "join [NL] (fold_units (u # us) lines cur k) = join [NL] (lines @ [cur]) @ ?W"
      using True W by (simp add: join_snoc2)
    have 2: "unfold_lines (P @ ?W) = P @ concat (u # us)" if "NL \<notin> set P" for P
    proof -
      have "unfold_lines (P @ ?W) = P @ unfold_lines (u @ W)"
        using unfold_skip[OF that, of "u @ W"] by simp
      also have "\<dots> = P @ u @ concat us" using W2 u by simp
      finally show ?thesis by simp
    qed
    have "last u \<noteq> NL" using u by (metis last_in_set)
    then have 3: "?W = [] \<or> last ?W \<noteq> NL"
      using W3 u by (cases "W = []") (auto simp: last_append)
    have "join [NL] (fold_units (u # us) lines cur k) = join [NL] (lines @ [cur]) @ ?W \<and>
       (\<forall>P. NL \<notin> set P \<longrightarrow> unfold_lines (P @ ?W) = P @ concat (u # us)) \<and>
       (?W = [] \<or> last ?W \<noteq> NL)"
      using 1 2 3 by (intro conjI allI impI)
    then show ?thesis by (rule exI)
  next
    case False
    from Cons.IH[OF us, of lines "cur @ u" "k + blob_size u"]
    obtain W where W: "join [NL] (fold_units us lines (cur @ u) (k + blob_size u)) =
          join [NL] (lines @ [cur @ u]) @ W"
      and W2: "\<forall>P. NL \<notin> set P \<longrightarrow> unfold_lines (P @ W) = P @ concat us"
      and W3: "W = [] \<or> last W \<noteq> NL" by (elim exE conjE) (rule that)
    let ?W = "u @ W"
    have 1: "join [NL] (fold_units (u # us) lines cur k) = join [NL] (lines @ [cur]) @ ?W"
      using False W by (simp add: join_snoc)
    have 2: "unfold_lines (P @ ?W) = P @ concat (u # us)" if "NL \<notin> set P" for P
      using W2[rule_format, of "P @ u"] that u by simp
    have "last u \<noteq> NL" using u by (metis last_in_set)
    then have 3: "?W = [] \<or> last ?W \<noteq> NL"
      using W3 u by (cases "W = []") (auto simp: last_append)
    have "join [NL] (fold_units (u # us) lines cur k) = join [NL] (lines @ [cur]) @ ?W \<and>
       (\<forall>P. NL \<notin> set P \<longrightarrow> unfold_lines (P @ ?W) = P @ concat (u # us)) \<and>
       (?W = [] \<or> last ?W \<noteq> NL)"
      using 1 2 3 by (intro conjI allI impI)
    then show ?thesis by (rule exI)
  qed
qed

lemma formatTextValue_units:
  "formatTextValue s = join [NL] (fold_units (units s) [] [] 0)"
  by (simp add: formatTextValue_def fold_loop_units)

lemma units_no_NL: "\<forall>u\<in>set (units s). NL \<notin> set u \<and> u \<noteq> []"
  using units_props by blast

lemma unfold_formatTextValue: "unfold_lines (formatTextValue s) = escape_text s"
proof -
  obtain W where W: "join [NL] (fold_units (units s) [] [] 0) = join [NL] ([] @ [[]]) @ W"
    and P: "\<forall>P. NL \<notin> set P \<longrightarrow> unfold_lines (P @ W) = P @ concat (units s)"
    using unfold_fold_units[OF units_no_NL, of s "[]" "[]" 0] by (elim exE conjE) (rule that)
  from P have "unfold_lines ([] @ W) = [] @ concat (units s)" by (intro P[rule_format]) simp
  with W show ?thesis by (simp add: formatTextValue_units escape_text_def)
qed

lemma formatTextValue_lines_bound:
  "\<forall>l\<in>set (split_on NL (formatTextValue s)). blob_size l \<le> 75"
proof -
  let ?ls = "fold_units (units s) [] [] 0"
  have nl: "\<forall>l\<in>set ?ls. NL \<notin> set l"
    using units_props by (intro fold_units_no_NL) auto
  have "split_on NL (formatTextValue s) = ?ls"
    unfolding formatTextValue_units using fold_units_nonempty nl by (intro split_on_join)
  moreover have "\<forall>l\<in>set ?ls. blob_size l \<le> 75"
    using units_props by (intro fold_units_bound) (auto simp: blob_size_def)
  ultimately show ?thesis by simp
qed

text \<open>
  What \<^verbatim>\<open>formatTextValue\<close> itself guarantees, for every text: no physical line of its
  result is longer than 75 bytes in UTF-8, and taking the continuation markers out of
  the result gives the escaped logical line.
\<close>

theorem formatTextValue_folds:
  "(\<forall>l\<in>set (split_on NL (formatTextValue s)). blob_size l \<le> 75) \<and>
   unfold_lines (formatTextValue s) = escape_text s"
  using formatTextValue_lines_bound unfold_formatTextValue by blast

lemmas string_eval = lit_def is_line_terminator_def is_space_def is_digit_def trim_def
  toLowerCase_def toUpperCase_def replace1_def utf8_len_def blob_size_def escape_char_def
  next_unit_def Let_def formatTextValue_def unesc_def unfold_lines_def match_all_def

lemmas render_eval = render_def render_parts_def render_sections_def kind_missing_def
  n_value_def nickname_lines_def image_lines_def image_line_def date_line_def
  gender_lines_def address_line_def tel_line_def email_line_def impp_line_def new_VCard_def
  decimal.simps getGroup_def

text \<open>A two-byte character at the fold: the line of 74 bytes is closed before it.\<close>

theorem formatTextValue_folds_witness:
  "split_on NL (formatTextValue (lit ''aaaaaaaaaaaaaaaaaaaaaaaaaaaaaaaaaaaaaaaaaaaaaaaaaaaaaaaaaaaaaaaaaaaaaaaaaa'' @ [233, 98])) =
     [lit ''aaaaaaaaaaaaaaaaaaaaaaaaaaaaaaaaaaaaaaaaaaaaaaaaaaaaaaaaaaaaaaaaaaaaaaaaaa'', [SPACE, 233, 98]] \<and>
   unfold_lines (formatTextValue (lit ''aaaaaaaaaaaaaaaaaaaaaaaaaaaaaaaaaaaaaaaaaaaaaaaaaaaaaaaaaaaaaaaaaaaaaaaaaa'' @ [233, 98])) =
     escape_text (lit ''aaaaaaaaaaaaaaaaaaaaaaaaaaaaaaaaaaaaaaaaaaaaaaaaaaaaaaaaaaaaaaaaaaaaaaaaaa'' @ [233, 98])"
  using formatTextValue_folds [of "lit ''aaaaaaaaaaaaaaaaaaaaaaaaaaaaaaaaaaaaaaaaaaaaaaaaaaaaaaaaaaaaaaaaaaaaaaaaaa'' @ [233, 98]"]
  by (simp add: string_eval)

text \<open>
  Claim C3. The bound of 75 bytes holds for what \<^verbatim>\<open>formatTextValue\<close> returns, but
  \<^verbatim>\<open>render\<close> puts \<^verbatim>\<open>NICKNAME:\<close> in front of the folded nickname, where every other
  property hands its key to \<^verbatim>\<open>formatTextValue\<close> with the value. For a nickname of 70
  letters the fifth physical line of the output is \<^verbatim>\<open>NICKNAME:\<close> and the 70 letters,
  79 bytes.
\<close>

theorem C3_nickname_line_exceeds_75:
  "render (new_VCard\<lparr>specVersion := 3, name := [lit ''Bob''], nickname := [lit ''aaaaaaaaaaaaaaaaaaaaaaaaaaaaaaaaaaaaaaaaaaaaaaaaaaaaaaaaaaaaaaaaaaaaaa'']\<rparr>) =
     Inr (lit ''BEGIN:VCARD'' @ [NL] @ lit ''VERSION:3.0'' @ [NL] @ lit ''FN:Bob'' @ [NL] @
          lit ''N:Bob'' @ [NL] @ lit ''NICKNAME:aaaaaaaaaaaaaaaaaaaaaaaaaaaaaaaaaaaaaaaaaaaaaaaaaaaaaaaaaaaaaaaaaaaaaa'' @ [NL] @ lit ''END:VCARD'') \<and>
   split_on NL (lit ''BEGIN:VCARD'' @ [NL] @ lit ''VERSION:3.0'' @ [NL] @ lit ''FN:Bob'' @ [NL] @
          lit ''N:Bob'' @ [NL] @ lit ''NICKNAME:aaaaaaaaaaaaaaaaaaaaaaaaaaaaaaaaaaaaaaaaaaaaaaaaaaaaaaaaaaaaaaaaaaaaaa'' @ [NL] @ lit ''END:VCARD'') ! 4 =
     lit ''NICKNAME:aaaaaaaaaaaaaaaaaaaaaaaaaaaaaaaaaaaaaaaaaaaaaaaaaaaaaaaaaaaaaaaaaaaaaa'' \<and>
   blob_size (lit ''NICKNAME:aaaaaaaaaaaaaaaaaaaaaaaaaaaaaaaaaaaaaaaaaaaaaaaaaaaaaaaaaaaaaaaaaaaaaa'') = 79"
  by (simp add: string_eval render_eval)

section \<open>Escaping and its inverse\<close>

text \<open>
  Claim C2. \<^verbatim>\<open>unesc\<close> makes its five replacements one after the other. For a backslash
  followed by the letter n, the escaped text is two backslashes and the letter; the
  fourth replacement turns the two backslashes into one, and the fifth reads the result
  as an escaped newline. So \<^verbatim>\<open>unesc\<close> returns a newline, not the text.
\<close>

theorem C2_unesc_backslash_n:
  "formatTextValue [BACKSLASH, 110] = [BACKSLASH, BACKSLASH, 110] \<and>
   unesc (formatTextValue [BACKSLASH, 110]) = [NL] \<and>
   unesc (formatTextValue [BACKSLASH, 110]) \<noteq> [BACKSLASH, 110]"
  by (simp add: string_eval)

section \<open>Version gating in \<^verbatim>\<open>render\<close>\<close>

















lemma collect_map_Inr: "collect (map (\<lambda>x. Inr (f x)) xs) = Inr (concat (map f xs))"
  by (induction xs) auto







section \<open>Combining groups in the tokenizer\<close>

lemmas tokenizer_eval = VCardParser_tokenizeVcardString_def tokenize_def tokenize_line_def
  parse_prop_def combine_groups_def group_step_def hasOwnProperty_def set_label_def upt_rec

text \<open>
  Claim C8. The merge holds for ordinary labels, as for \<^verbatim>\<open>item1\<close> here, but the lookup
  table is a plain object: an assignment to \<^verbatim>\<open>__proto__\<close> stores nothing, so that every
  line of a group with this label is the first of its group. The two lines below stay
  two tokens, and the second keeps the key \<^verbatim>\<open>X-ABLabel\<close>.
\<close>

theorem C8_proto_group_not_merged:
  "VCardParser_tokenizeVcardString
     (lit ''item1.ADR:Main St'' @ [NL] @ lit ''item1.X-ABLabel:Home'') =
     Inr [\<lparr>key = lit ''ADR'', props = [(lit ''LABEL'', [lit ''Home''])],
           values = [lit ''Main St'']\<rparr>] \<and>
   VCardParser_tokenizeVcardString
     (lit ''__proto__.ADR:Main St'' @ [NL] @ lit ''__proto__.X-ABLabel:Home'') =
     Inr [\<lparr>key = lit ''ADR'', props = [], values = [lit ''Main St'']\<rparr>,
          \<lparr>key = lit ''X-ABLabel'', props = [], values = [lit ''Home'']\<rparr>]"
  by (simp add: string_eval tokenizer_eval)

section \<open>Escaped texts under the tokenizer\<close>


lemma segments_pair:
  "\<not> is_line_terminator y \<Longrightarrow>
   segments d cur (BACKSLASH # y # R) = segments d (cur @ [BACKSLASH, y]) R"
  by simp







lemma units_no_percent: "PERCENT \<notin> set a \<Longrightarrow> units (a @ b) = map escape_char a @ units b"
  by (induction a) (auto simp: next_unit_def)

lemma units_plain: "PERCENT \<notin> set a \<Longrightarrow> units a = map escape_char a"
  using units_no_percent[of a "[]"] by simp

lemma escape_text_plain: "PERCENT \<notin> set a \<Longrightarrow> escape_text a = escape_chars a"
  by (simp add: escape_text_def escape_chars_def units_plain)




lemma replace2_nomatch:
  "\<not> (c = a \<and> R \<noteq> [] \<and> hd R = b) \<Longrightarrow> replace2 a b r (c # R) = c # replace2 a b r R"
  by (cases R) auto

lemma replace2_units:
  assumes shape: "\<And>c. f c = [BACKSLASH, x] \<or> (\<exists>y. f c = [BACKSLASH, y] \<and> y \<noteq> x) \<or>
                     (\<exists>d. f c = [d] \<and> d \<noteq> BACKSLASH)"
    and start: "x \<noteq> BACKSLASH \<Longrightarrow> (\<And>c. hd (f c) \<noteq> x)"
  shows "replace2 BACKSLASH x [x'] (concat (map f s)) =
         concat (map (\<lambda>c. if f c = [BACKSLASH, x] then [x'] else f c) s)"
proof (induction s)
  case Nil
  then show ?case by simp
next
  case (Cons c s)
  let ?R = "concat (map f s)"
  let ?g = "\<lambda>c. if f c = [BACKSLASH, x] then [x'] else f c"
  have hdR: "x \<noteq> BACKSLASH \<Longrightarrow> ?R \<noteq> [] \<Longrightarrow> hd ?R \<noteq> x"
  proof (cases s)
    case Nil
    then show "?R \<noteq> [] \<Longrightarrow> hd ?R \<noteq> x" by simp
  next
    case (Cons c' s')
    assume nb: "x \<noteq> BACKSLASH"
    have "f c' \<noteq> []" using shape[of c'] by auto
    then have "hd ?R = hd (f c')" using Cons by simp
    with start[OF nb, of c'] show "hd ?R \<noteq> x" by simp
  qed
  from shape[of c] consider
      (a) "f c = [BACKSLASH, x]"
    | (b) y where "f c = [BACKSLASH, y]" "y \<noteq> x"
    | (c) d where "f c = [d]" "d \<noteq> BACKSLASH" by blast
  then show ?case
  proof cases
    case a
    then show ?thesis using Cons.IH by simp
  next
    case b
    have "replace2 BACKSLASH x [x'] (BACKSLASH # y # ?R) = BACKSLASH # replace2 BACKSLASH x [x'] (y # ?R)"
      using b(2) by simp
    also have "replace2 BACKSLASH x [x'] (y # ?R) = y # replace2 BACKSLASH x [x'] ?R"
    proof (rule replace2_nomatch)
      show "\<not> (y = BACKSLASH \<and> ?R \<noteq> [] \<and> hd ?R = x)"
        using b(2) hdR by (cases "x = BACKSLASH") auto
    qed
    finally show ?thesis using b Cons.IH by simp
  next
    case c
    have "replace2 BACKSLASH x [x'] (d # ?R) = d # replace2 BACKSLASH x [x'] ?R"
      using c(2) by (intro replace2_nomatch) simp
    then show ?thesis using c Cons.IH by simp
  qed
qed

lemma replace2_newlines:
  "backslash_n_free s \<Longrightarrow>
   replace2 BACKSLASH 110 [NL] (concat (map (\<lambda>c. if c = NL then [BACKSLASH, 110] else [c]) s)) = s"
proof (induction s rule: backslash_n_free.induct)
  case (1 a b cs)
  let ?f = "\<lambda>c. if c = NL then [BACKSLASH, 110] else [c]"
  let ?R = "concat (map ?f (b # cs))"
  have IH: "replace2 BACKSLASH 110 [NL] ?R = b # cs" using 1 by simp
  show ?case
  proof (cases "a = NL")
    case True
    then show ?thesis using IH by simp
  next
    case False
    have "hd ?R = (if b = NL then BACKSLASH else b)" by simp
    then have "\<not> (a = BACKSLASH \<and> ?R \<noteq> [] \<and> hd ?R = 110)" using 1(2) by auto
    then have "replace2 BACKSLASH 110 [NL] (a # ?R) = a # replace2 BACKSLASH 110 [NL] ?R"
      by (rule replace2_nomatch)
    then show ?thesis using False IH by simp
  qed
next
  case (2 a)
  then show ?case by simp
next
  case 3
  then show ?case by simp
qed

lemma unesc_escape_chars: "backslash_n_free s \<Longrightarrow> unesc (escape_chars s) = s"
proof -
  assume safe: "backslash_n_free s"
  define f1 where "f1 = (\<lambda>c. if escape_char c = [BACKSLASH, COMMA] then [COMMA] else escape_char c)"
  define f2 where "f2 = (\<lambda>c. if f1 c = [BACKSLASH, SEMI] then [SEMI] else f1 c)"
  define f3 where "f3 = (\<lambda>c. if f2 c = [BACKSLASH, COLON] then [COLON] else f2 c)"
  define f4 where "f4 = (\<lambda>c. if f3 c = [BACKSLASH, BACKSLASH] then [BACKSLASH] else f3 c)"
  have 1: "replace2 BACKSLASH COMMA [COMMA] (concat (map escape_char s)) = concat (map f1 s)"
    unfolding f1_def by (rule replace2_units) (auto simp: escape_char_def)
  have 2: "replace2 BACKSLASH SEMI [SEMI] (concat (map f1 s)) = concat (map f2 s)"
    unfolding f2_def by (rule replace2_units) (auto simp: f1_def escape_char_def)
  have 3: "replace2 BACKSLASH COLON [COLON] (concat (map f2 s)) = concat (map f3 s)"
    unfolding f3_def by (rule replace2_units) (auto simp: f2_def f1_def escape_char_def)
  have 4: "replace2 BACKSLASH BACKSLASH [BACKSLASH] (concat (map f3 s)) = concat (map f4 s)"
    unfolding f4_def by (rule replace2_units) (auto simp: f3_def f2_def f1_def escape_char_def)
  have f4: "f4 = (\<lambda>c. if c = NL then [BACKSLASH, 110] else [c])"
    by (rule ext) (simp add: f4_def f3_def f2_def f1_def escape_char_def)
  have 5: "replace2 BACKSLASH 110 [NL] (concat (map f4 s)) = s"
    unfolding f4 using safe by (rule replace2_newlines)
  show ?thesis
    unfolding unesc_def escape_chars_def 1 2 3 4 5 ..
qed

text \<open>
  On the texts without a percent sign and without a backslash directly followed by the
  letter n, \<^verbatim>\<open>unesc\<close> is a left inverse of the escaping, folding included: the tokenizer
  unfolds the lines first and applies \<^verbatim>\<open>unesc\<close> to the result.
\<close>

theorem unesc_inverts_formatTextValue:
  "PERCENT \<notin> set s \<Longrightarrow> backslash_n_free s \<Longrightarrow> unesc (unfold_lines (formatTextValue s)) = s"
  by (simp add: unfold_formatTextValue escape_text_plain unesc_escape_chars)

theorem unesc_inverts_formatTextValue_witness:
  "PERCENT \<notin> set (lit ''a,b;c:d'' @ [BACKSLASH, NL]) \<and>
   backslash_n_free (lit ''a,b;c:d'' @ [BACKSLASH, NL]) \<and>
   unesc (unfold_lines (formatTextValue (lit ''a,b;c:d'' @ [BACKSLASH, NL]))) =
     lit ''a,b;c:d'' @ [BACKSLASH, NL]"
  using unesc_inverts_formatTextValue[of "lit ''a,b;c:d'' @ [BACKSLASH, NL]"]
  by (simp add: lit_def)



section \<open>The lines of a rendered document\<close>









lemma tokenize_lines_map:
  "\<forall>L\<in>set Ls. tokenize_line b L = Inr (f L) \<Longrightarrow> tokenize_lines b Ls = Inr (map f Ls)"
  by (induction Ls) auto

lemma escape_chars_simps [simp]:
  "escape_chars [] = []" "escape_chars (c # s) = escape_char c @ escape_chars s"
  "escape_chars (a @ b) = escape_chars a @ escape_chars b"
  by (simp_all add: escape_chars_def)






lemma segments_end: "segments d cur [] = (if cur = [] then [] else [cur])"
  by simp















section \<open>The field mapper on the tokens of \<^verbatim>\<open>render\<close>\<close>







lemma good_text_nonempty: "good_text t \<Longrightarrow> t \<noteq> []"
  by (simp add: good_text_def)









section \<open>Decoding a rendered contact\<close>



















lemma text_contact_ok: "roundtrip_ok text_contact"
  by (simp add: roundtrip_ok_def text_contact_def new_VCard_def KINDS_def good_name_def
      good_text_def good_nickname_def safe_text_def string_eval)


end
